(* ===== verification/Prelude.thy ===== *)
theory Prelude
  imports Main "HOL-Library.Char_ord" "HOL-Library.List_Lexorder" "HOL-Library.Signed_Division"
    "HOL-Library.AList" "HOL-Library.Multiset"
begin

text \<open>
  Shared vocabulary of the development. Three groups:
  \<^item> results: a fallible Go call that returns \<open>(value, error)\<close> is a sum \<open>'e + 'a\<close>, with
    \<open>Inl\<close> for the error; a call that also changes stored state returns the pair of that sum and the
    new state, so that an error branch shows what it left behind;
  \<^item> Go's \<open>int64\<close>: values are integers and every arithmetic operation wraps to 64 bits,
    division truncates towards zero;
  \<^item> Go's strings: a \<open>string\<close> is the list of its bytes, compared bytewise, as Go and
    SQLite's BINARY collation do.
\<close>

named_theorems int64_simps \<open>wrapping arithmetic over int64\<close>
named_theorems row_simps \<open>reading rows back from association lists and tables\<close>

section \<open>Results\<close>

definition res_ok :: "'e + 'a \<Rightarrow> bool" where
  "res_ok r = (case r of Inl _ \<Rightarrow> False | Inr _ \<Rightarrow> True)"

lemma res_ok_simps [simp]: "res_ok (Inl e) = False" "res_ok (Inr x) = True"
  by (simp_all add: res_ok_def)

text \<open>Sequencing of two fallible, state-changing calls: the second runs only if the first
  returned no error, and an error leaves the state the first call left.\<close>

definition bind_st :: "('s \<Rightarrow> ('e + 'a) \<times> 's) \<Rightarrow> ('a \<Rightarrow> 's \<Rightarrow> ('e + 'b) \<times> 's) \<Rightarrow> 's \<Rightarrow> ('e + 'b) \<times> 's" where
  "bind_st f g s = (case f s of (Inl e, s') \<Rightarrow> (Inl e, s') | (Inr x, s') \<Rightarrow> g x s')"

lemma bind_st_Inr_iff:
  "bind_st f g s = (Inr y, t) \<longleftrightarrow> (\<exists>x s'. f s = (Inr x, s') \<and> g x s' = (Inr y, t))"
  by (auto simp: bind_st_def split: prod.splits sum.splits)

section \<open>Signed 64-bit integers\<close>

definition in64 :: "int \<Rightarrow> bool" where
  "in64 x \<longleftrightarrow> - (2 ^ 63) \<le> x \<and> x < 2 ^ 63"

definition wrap64 :: "int \<Rightarrow> int" where
  "wrap64 x = (x + 2 ^ 63) mod 2 ^ 64 - 2 ^ 63"

definition add64 :: "int \<Rightarrow> int \<Rightarrow> int" where "add64 a b = wrap64 (a + b)"

definition sub64 :: "int \<Rightarrow> int \<Rightarrow> int" where "sub64 a b = wrap64 (a - b)"

definition neg64 :: "int \<Rightarrow> int" where "neg64 a = wrap64 (- a)"

definition mul64 :: "int \<Rightarrow> int \<Rightarrow> int" where "mul64 a b = wrap64 (a * b)"

text \<open>Go's \<open>/\<close> truncates towards zero. The code divides by non-zero constants only.\<close>

definition quo64 :: "int \<Rightarrow> int \<Rightarrow> int" where "quo64 a b = wrap64 (a sdiv b)"

definition sum64 :: "int list \<Rightarrow> int" where "sum64 xs = foldl add64 0 xs"

lemma in64_wrap64 [simp]: "in64 (wrap64 x)"
proof -
  have "0 \<le> (x + 2 ^ 63) mod 2 ^ 64 \<and> (x + 2 ^ 63) mod 2 ^ 64 < (2 ^ 64 :: int)"
    by simp
  then show ?thesis by (simp add: wrap64_def in64_def)
qed

lemma wrap64_id: "in64 x \<Longrightarrow> wrap64 x = x"
  by (simp add: wrap64_def in64_def)

lemma wrap64_0 [simp]: "wrap64 0 = 0"
  by (simp add: wrap64_def)

lemma in64_0 [simp]: "in64 0"
  by (simp add: in64_def)

lemma wrap64_wrap64 [simp]: "wrap64 (wrap64 x) = wrap64 x"
  by (rule wrap64_id) simp

lemma wrap64_eq_iff: "wrap64 x = wrap64 y \<longleftrightarrow> x mod 2 ^ 64 = y mod 2 ^ 64"
proof -
  have "wrap64 x = wrap64 y \<longleftrightarrow> (x + 2 ^ 63) mod 2 ^ 64 = (y + 2 ^ 63) mod 2 ^ 64"
    by (simp add: wrap64_def)
  also have "\<dots> \<longleftrightarrow> x mod 2 ^ 64 = y mod 2 ^ 64"
    unfolding mod_eq_dvd_iff by simp
  finally show ?thesis .
qed

lemma wrap64_add_left: "wrap64 (wrap64 x + y) = wrap64 (x + y)"
proof -
  have "wrap64 x mod 2 ^ 64 = x mod 2 ^ 64"
    using wrap64_eq_iff [of "wrap64 x" x] by simp
  then have "(wrap64 x + y) mod 2 ^ 64 = (x + y) mod 2 ^ 64"
    by (metis mod_add_left_eq)
  then show ?thesis by (simp add: wrap64_eq_iff)
qed

lemma wrap64_add_right: "wrap64 (x + wrap64 y) = wrap64 (x + y)"
  using wrap64_add_left [of y x] by (simp add: add.commute)

lemma wrap64_minus: "wrap64 (- wrap64 x) = wrap64 (- x)"
proof -
  have "wrap64 x mod 2 ^ 64 = x mod 2 ^ 64"
    using wrap64_eq_iff [of "wrap64 x" x] by simp
  then have "(- wrap64 x) mod 2 ^ 64 = (- x) mod 2 ^ 64"
    by (metis mod_minus_eq)
  then show ?thesis by (simp add: wrap64_eq_iff)
qed

lemma wrap64_mult_left: "wrap64 (wrap64 x * y) = wrap64 (x * y)"
proof -
  have "wrap64 x mod 2 ^ 64 = x mod 2 ^ 64"
    using wrap64_eq_iff [of "wrap64 x" x] by simp
  then have "(wrap64 x * y) mod 2 ^ 64 = (x * y) mod 2 ^ 64"
    by (metis mod_mult_left_eq)
  then show ?thesis by (simp add: wrap64_eq_iff)
qed

lemma foldl_add64_wrap: "wrap64 (foldl add64 a xs) = wrap64 (a + sum_list xs)"
proof (induction xs arbitrary: a)
  case (Cons x xs)
  have "wrap64 (foldl add64 (add64 a x) xs) = wrap64 (add64 a x + sum_list xs)"
    by (rule Cons.IH)
  also have "\<dots> = wrap64 (a + (x + sum_list xs))"
    by (simp add: add64_def wrap64_add_left add.assoc)
  finally show ?case by simp
qed simp

lemma in64_foldl_add64: "in64 a \<Longrightarrow> in64 (foldl add64 a xs)"
  by (induction xs arbitrary: a) (simp_all add: add64_def)

lemma sum64_wrap: "sum64 xs = wrap64 (sum_list xs)"
  using foldl_add64_wrap [of 0 xs] wrap64_id [OF in64_foldl_add64 [of 0 xs]]
  by (simp add: sum64_def)

lemma sum64_Nil [simp]: "sum64 [] = 0"
  by (simp add: sum64_def)

lemma sum64_snoc: "sum64 (xs @ [x]) = add64 (sum64 xs) x"
  by (simp add: sum64_def)

lemma sum64_exact: "in64 (sum_list xs) \<Longrightarrow> sum64 xs = sum_list xs"
  by (simp add: sum64_wrap wrap64_id)

lemmas [int64_simps] = add64_def sub64_def neg64_def mul64_def quo64_def
  wrap64_add_left wrap64_add_right wrap64_minus wrap64_mult_left

section \<open>Strings\<close>

text \<open>\<open>strings.HasPrefix\<close>, \<open>strings.TrimPrefix\<close> and their suffix forms.\<close>

fun has_prefix :: "string \<Rightarrow> string \<Rightarrow> bool" where
  "has_prefix s [] = True"
| "has_prefix [] (p # ps) = False"
| "has_prefix (c # cs) (p # ps) = (c = p \<and> has_prefix cs ps)"

definition has_suffix :: "string \<Rightarrow> string \<Rightarrow> bool" where
  "has_suffix s p = has_prefix (rev s) (rev p)"

definition trim_prefix :: "string \<Rightarrow> string \<Rightarrow> string" where
  "trim_prefix s p = (if has_prefix s p then drop (length p) s else s)"

lemma has_prefix_iff: "has_prefix s p \<longleftrightarrow> (\<exists>r. s = p @ r)"
  by (induction s p rule: has_prefix.induct) auto

text \<open>
  \<open>strings.TrimSpace\<close> removes leading and trailing runes for which \<open>unicode.IsSpace\<close> holds:
  the six ASCII ones and, in UTF-8, U+0085, U+00A0, U+1680, U+2000 to U+200A, U+2028, U+2029,
  U+202F, U+205F and U+3000. \<open>space_runes\<close> lists their encodings; none is a prefix or a
  suffix of another, so at most one matches at an end of a string.
\<close>

definition space_runes :: "string list" where
  "space_runes =
     [[CHR 0x09], [CHR 0x0A], [CHR 0x0B], [CHR 0x0C], [CHR 0x0D], [CHR 0x20],
      [CHR 0xC2, CHR 0x85], [CHR 0xC2, CHR 0xA0], [CHR 0xE1, CHR 0x9A, CHR 0x80],
      [CHR 0xE2, CHR 0x80, CHR 0x80], [CHR 0xE2, CHR 0x80, CHR 0x81],
      [CHR 0xE2, CHR 0x80, CHR 0x82], [CHR 0xE2, CHR 0x80, CHR 0x83],
      [CHR 0xE2, CHR 0x80, CHR 0x84], [CHR 0xE2, CHR 0x80, CHR 0x85],
      [CHR 0xE2, CHR 0x80, CHR 0x86], [CHR 0xE2, CHR 0x80, CHR 0x87],
      [CHR 0xE2, CHR 0x80, CHR 0x88], [CHR 0xE2, CHR 0x80, CHR 0x89],
      [CHR 0xE2, CHR 0x80, CHR 0x8A], [CHR 0xE2, CHR 0x80, CHR 0xA8],
      [CHR 0xE2, CHR 0x80, CHR 0xA9], [CHR 0xE2, CHR 0x80, CHR 0xAF],
      [CHR 0xE2, CHR 0x81, CHR 0x9F], [CHR 0xE3, CHR 0x80, CHR 0x80]]"

definition lead_space :: "string list \<Rightarrow> string \<Rightarrow> nat" where
  "lead_space ps s = (case filter (has_prefix s) ps of [] \<Rightarrow> 0 | p # _ \<Rightarrow> length p)"

function trim_left_by :: "string list \<Rightarrow> string \<Rightarrow> string" where
  "trim_left_by ps s =
     (if s = [] \<or> lead_space ps s = 0 then s else trim_left_by ps (drop (lead_space ps s) s))"
  by pat_completeness auto
termination
  by (relation "measure (\<lambda>(ps, s). length s)") auto

declare trim_left_by.simps [simp del]

definition trim_space :: "string \<Rightarrow> string" where
  "trim_space s =
     rev (trim_left_by (List.map rev space_runes) (rev (trim_left_by space_runes s)))"

text \<open>The common case: a string with no white space at either end is left alone.\<close>

lemma trim_left_by_stop: "lead_space ps s = 0 \<Longrightarrow> trim_left_by ps s = s"
  by (subst trim_left_by.simps) simp

lemma trim_left_by_Nil [simp]: "trim_left_by ps [] = []"
  by (subst trim_left_by.simps) simp

lemma trim_space_Nil [simp]: "trim_space [] = []"
  by (simp add: trim_space_def)

lemma trim_left_by_suffix: "\<exists>r. s = r @ trim_left_by ps s"
proof (induction ps s rule: trim_left_by.induct)
  case (1 ps s)
  show ?case
  proof (cases "s = [] \<or> lead_space ps s = 0")
    case True
    then show ?thesis by (simp add: trim_left_by.simps [of ps s])
  next
    case False
    with 1 obtain r where "drop (lead_space ps s) s = r @ trim_left_by ps (drop (lead_space ps s) s)"
      by blast
    then have "s = (take (lead_space ps s) s @ r) @ trim_left_by ps (drop (lead_space ps s) s)"
      by (metis append.assoc append_take_drop_id)
    with False show ?thesis by (metis trim_left_by.simps)
  qed
qed

lemma lead_space_Nil [simp]: "lead_space ps [] = 0"
proof -
  have "\<forall>p \<in> set (filter (has_prefix []) ps). length p = 0"
    by (auto simp: has_prefix_iff)
  then show ?thesis
    unfolding lead_space_def by (cases "filter (has_prefix []) ps") simp_all
qed

lemma trim_left_by_done: "s = [] \<or> lead_space ps (trim_left_by ps s) = 0"
proof (induction ps s rule: trim_left_by.induct)
  case (1 ps s)
  show ?case
  proof (cases "s = [] \<or> lead_space ps s = 0")
    case True
    then show ?thesis by (auto simp: trim_left_by.simps [of ps s])
  next
    case False
    with 1 have "drop (lead_space ps s) s = [] \<or>
        lead_space ps (trim_left_by ps (drop (lead_space ps s) s)) = 0" by auto
    moreover have "trim_left_by ps s = trim_left_by ps (drop (lead_space ps s) s)"
      using False by (simp add: trim_left_by.simps [of ps s])
    ultimately show ?thesis by (metis lead_space_Nil trim_left_by_Nil)
  qed
qed

lemma length_trim_space: "length (trim_space s) \<le> length s"
proof -
  have len: "length (trim_left_by ps t) \<le> length t" for ps t
    using trim_left_by_suffix [of t ps] by (metis length_append le_add2)
  show ?thesis
    using len [of "List.map rev space_runes" "rev (trim_left_by space_runes s)"] len [of space_runes s]
    by (simp add: trim_space_def)
qed

text \<open>Case mapping of the ASCII letters (\<open>strings.ToLower\<close>, \<open>strings.ToUpper\<close>). Bytes
  above 0x7F are left as they are: Unicode's case tables are not part of the model.\<close>

definition lower_char :: "char \<Rightarrow> char" where
  "lower_char c = (let n = (of_char c :: nat) in if 65 \<le> n \<and> n \<le> 90 then char_of (n + 32) else c)"

definition upper_char :: "char \<Rightarrow> char" where
  "upper_char c = (let n = (of_char c :: nat) in if 97 \<le> n \<and> n \<le> 122 then char_of (n - 32) else c)"

definition to_lower :: "string \<Rightarrow> string" where "to_lower = List.map lower_char"

definition to_upper :: "string \<Rightarrow> string" where "to_upper = List.map upper_char"

text \<open>Decimal rendering, \<open>%d\<close> and \<open>%0*d\<close>.\<close>

fun nat_str :: "nat \<Rightarrow> string" where
  "nat_str n = (if n < 10 then [char_of (48 + n)] else nat_str (n div 10) @ [char_of (48 + n mod 10)])"

declare nat_str.simps [simp del]

definition int_str :: "int \<Rightarrow> string" where
  "int_str i = (if i < 0 then CHR ''-'' # nat_str (nat (- i)) else nat_str (nat i))"

definition pad_left :: "nat \<Rightarrow> string \<Rightarrow> string" where
  "pad_left w s = replicate (w - length s) (CHR ''0'') @ s"

text \<open>Reading a decimal numeral back; None if a byte is not a digit or the string is empty.\<close>

definition digit_val :: "char \<Rightarrow> nat option" where
  "digit_val c = (let n = (of_char c :: nat) in if 48 \<le> n \<and> n \<le> 57 then Some (n - 48) else None)"

fun digits_val :: "nat \<Rightarrow> string \<Rightarrow> nat option" where
  "digits_val acc [] = Some acc"
| "digits_val acc (c # cs) =
     (case digit_val c of None \<Rightarrow> None | Some d \<Rightarrow> digits_val (10 * acc + d) cs)"

definition parse_nat :: "string \<Rightarrow> nat option" where
  "parse_nat s = (if s = [] then None else digits_val 0 s)"

lemma digit_val_char_of: "d < 10 \<Longrightarrow> digit_val (char_of (48 + d)) = Some d"
  by (simp add: digit_val_def)

lemma digits_val_append:
  "digits_val a (xs @ ys) = (case digits_val a xs of None \<Rightarrow> None | Some b \<Rightarrow> digits_val b ys)"
  by (induction xs arbitrary: a) (auto split: option.splits)

lemma nat_str_not_Nil [simp]: "nat_str n \<noteq> []"
  by (subst nat_str.simps) simp

lemma digits_val_nat_str: "digits_val 0 (nat_str n) = Some n"
proof (induction n rule: nat_str.induct)
  case (1 n)
  show ?case
  proof (cases "n < 10")
    case True
    then show ?thesis by (simp add: nat_str.simps [of n] digit_val_char_of)
  next
    case False
    then have "nat_str n = nat_str (n div 10) @ [char_of (48 + n mod 10)]"
      by (simp add: nat_str.simps [of n])
    moreover have "digit_val (char_of (48 + n mod 10)) = Some (n mod 10)"
      by (rule digit_val_char_of) simp
    ultimately show ?thesis
      using 1 [OF False] by (simp add: digits_val_append)
  qed
qed

lemma parse_nat_str [simp]: "parse_nat (nat_str n) = Some n"
  by (simp add: parse_nat_def digits_val_nat_str)

lemma nat_str_inj: "nat_str m = nat_str n \<longleftrightarrow> m = n"
  by (metis option.inject parse_nat_str)

lemma digits_val_zeros: "digits_val 0 (replicate k (CHR ''0'') @ s) = digits_val 0 s"
  by (induction k) (auto simp: digit_val_def)

lemma pad_left_val: "digits_val 0 (pad_left w s) = digits_val 0 s"
  by (simp add: pad_left_def digits_val_zeros)

text \<open>The separator \<open>" \<emdash> "\<close> the code puts between a number and a name, in UTF-8.\<close>

definition em_dash :: string where
  "em_dash = [CHR 0x20, CHR 0xE2, CHR 0x80, CHR 0x94, CHR 0x20]"

section \<open>Lists, tables, association lists\<close>

text \<open>The first element that satisfies a test: \<open>SELECT ... LIMIT 1\<close> over rows in order.\<close>

definition first_row :: "('a \<Rightarrow> bool) \<Rightarrow> 'a list \<Rightarrow> 'a option" where
  "first_row p xs = (case filter p xs of [] \<Rightarrow> None | x # _ \<Rightarrow> Some x)"

lemma first_row_Some: "first_row p xs = Some x \<Longrightarrow> x \<in> set xs \<and> p x"
  by (auto simp: first_row_def split: list.splits dest: filter_eq_ConsD)

lemma first_row_None [row_simps]: "first_row p xs = None \<longleftrightarrow> (\<forall>x \<in> set xs. \<not> p x)"
  by (cases "filter p xs") (auto simp: first_row_def filter_empty_conv dest: filter_eq_ConsD)

lemma first_row_append [row_simps]:
  "first_row p (xs @ ys) = (case first_row p xs of None \<Rightarrow> first_row p ys | Some x \<Rightarrow> Some x)"
  by (auto simp: first_row_def split: list.splits)

lemma first_row_Cons [row_simps]: "first_row p (x # xs) = (if p x then Some x else first_row p xs)"
  by (auto simp: first_row_def split: list.splits)

lemma first_row_Nil [simp]: "first_row p [] = None"
  by (simp add: first_row_def)

lemma first_row_map:
  "(\<And>x. p (f x) = p x) \<Longrightarrow> first_row p (List.map f xs) = map_option f (first_row p xs)"
  by (induction xs) (auto simp: first_row_Cons)

lemma map_of_Some_dom: "map_of xs k = Some v \<Longrightarrow> k \<in> fst ` set xs"
  by (metis domI dom_map_of_conv_image_fst)

text \<open>Rewriting the rows that satisfy a test: \<open>UPDATE ... WHERE\<close>.\<close>

definition update_rows :: "('a \<Rightarrow> bool) \<Rightarrow> ('a \<Rightarrow> 'a) \<Rightarrow> 'a list \<Rightarrow> 'a list" where
  "update_rows p f xs = List.map (\<lambda>x. if p x then f x else x) xs"

lemma update_rows_Nil [simp]: "update_rows p f [] = []"
  by (simp add: update_rows_def)

lemma length_update_rows [simp]: "length (update_rows p f xs) = length xs"
  by (simp add: update_rows_def)

lemma update_rows_none: "(\<And>x. x \<in> set xs \<Longrightarrow> \<not> p x) \<Longrightarrow> update_rows p f xs = xs"
  by (induction xs) (auto simp: update_rows_def)

lemma update_rows_id: "(\<And>x. x \<in> set xs \<Longrightarrow> p x \<Longrightarrow> f x = x) \<Longrightarrow> update_rows p f xs = xs"
  by (induction xs) (auto simp: update_rows_def)

lemma map_update_rows: "(\<And>x. g (f x) = g x) \<Longrightarrow> List.map g (update_rows p f xs) = List.map g xs"
  by (simp add: update_rows_def)

lemma ball_map_eq:
  assumes "List.map g xs = List.map g ys"
  shows "(\<forall>x \<in> set xs. P (g x)) \<longleftrightarrow> (\<forall>y \<in> set ys. P (g y))"
proof -
  have "g ` set xs = g ` set ys" using arg_cong [OF assms, of set] by simp
  then show ?thesis by (metis (mono_tags, lifting) imageE imageI)
qed

lemma sort_key_append_later:
  fixes f :: "'a \<Rightarrow> 'b::linorder"
  assumes "\<And>x y. x \<in> set xs \<Longrightarrow> y \<in> set ys \<Longrightarrow> f x \<le> f y" "sorted (List.map f ys)"
  shows "sort_key f (xs @ ys) = sort_key f xs @ ys"
proof (rule properties_for_sort_key)
  show "mset (sort_key f xs @ ys) = mset (xs @ ys)" by simp
  show "sorted (List.map f (sort_key f xs @ ys))" using assms by (auto simp: sorted_append)
  fix k assume "k \<in> set (sort_key f xs @ ys)"
  have "filter (\<lambda>x. f x = f k) (sort_key f xs) = filter (\<lambda>x. f x = f k) xs" by (rule sort_key_stable)
  then show "filter (\<lambda>x. f k = f x) (sort_key f xs @ ys) = filter (\<lambda>x. f k = f x) (xs @ ys)"
    by (simp add: eq_commute [of "f k"])
qed

lemma set_update_rows: "set (update_rows p f xs) = f ` {x \<in> set xs. p x} \<union> {x \<in> set xs. \<not> p x}"
  by (auto simp: update_rows_def)

end
