(* ===== verification/ToolReg.thy ===== *)
theory ToolReg
  imports Prelude
begin

text \<open>
  The tool vocabulary and the registry (\<open>internal/tool/tool.go\<close>). A handler is code the
  registry only stores, so the registry is polymorphic in it. The two Go maps are association
  lists with distinct keys; \<open>Definitions\<close> sorts them by name, which makes the order the map
  iteration chose irrelevant. A Go \<open>nil\<close> handler is None.
\<close>

section \<open>Tools, calls and results\<close>

datatype side = SideServer | SideClient

datatype risk = RiskRead | RiskWrite | RiskDestructive | RiskOther string

fun risk_valid :: "risk \<Rightarrow> bool" where
  "risk_valid (RiskOther _) = False"
| "risk_valid _ = True"

record tool_def =
  td_name :: string
  td_description :: string
  td_parameters :: string
  td_risk :: risk
  td_side :: side

record tool_call =
  tc_id :: string
  tc_name :: string
  tc_input :: string

record tool_result =
  tr_call_id :: string
  tr_content :: string
  tr_is_error :: bool

definition errorf :: "string \<Rightarrow> string \<Rightarrow> tool_result" where
  "errorf call_id msg = \<lparr>tr_call_id = call_id, tr_content = msg, tr_is_error = True\<rparr>"

section \<open>The registry\<close>

record 'h registry =
  reg_defs :: "(string \<times> tool_def) list"
  reg_handlers :: "(string \<times> 'h) list"

datatype reg_error = NilHandler string | EmptyName | InvalidRisk string risk | Duplicate string

definition new_registry :: "'h registry" where
  "new_registry = \<lparr>reg_defs = [], reg_handlers = []\<rparr>"

definition empty_params :: string where
  "empty_params = ''{\"type\":\"object\",\"properties\":{}}''"

definition register_def :: "'h registry \<Rightarrow> tool_def \<Rightarrow> reg_error + 'h registry" where
  "register_def r d =
     (if td_name d = '''' then Inl EmptyName
      else if \<not> risk_valid (td_risk d) then Inl (InvalidRisk (td_name d) (td_risk d))
      else
        let d' = (if td_parameters d = '''' then d\<lparr>td_parameters := empty_params\<rparr> else d)
        in if map_of (reg_defs r) (td_name d) \<noteq> None then Inl (Duplicate (td_name d))
           else Inr (r\<lparr>reg_defs := (td_name d, d') # reg_defs r\<rparr>))"

definition register_server :: "'h registry \<Rightarrow> tool_def \<Rightarrow> 'h option \<Rightarrow> reg_error + 'h registry" where
  "register_server r d h =
     (case h of
        None \<Rightarrow> Inl (NilHandler (td_name d))
      | Some f \<Rightarrow>
          (case register_def r (d\<lparr>td_side := SideServer\<rparr>) of
             Inl e \<Rightarrow> Inl e
           | Inr r' \<Rightarrow> Inr (r'\<lparr>reg_handlers := AList.update (td_name d) f (reg_handlers r')\<rparr>)))"

definition register_client :: "'h registry \<Rightarrow> tool_def \<Rightarrow> reg_error + 'h registry" where
  "register_client r d = register_def r (d\<lparr>td_side := SideClient\<rparr>)"

definition definitions :: "'h registry \<Rightarrow> tool_def list" where
  "definitions r = sort_key td_name (List.map snd (reg_defs r))"

definition reg_definition :: "'h registry \<Rightarrow> string \<Rightarrow> tool_def option" where
  "reg_definition r name = map_of (reg_defs r) name"

definition reg_handler :: "'h registry \<Rightarrow> string \<Rightarrow> 'h option" where
  "reg_handler r name = map_of (reg_handlers r) name"

text \<open>\<open>Clone\<close> copies both maps; values in HOL cannot alias, so the copy is the registry built
  entry by entry.\<close>

definition clone :: "'h registry \<Rightarrow> 'h registry" where
  "clone r = \<lparr>reg_defs = foldr (\<lambda>(n, d) acc. AList.update n d acc) (reg_defs r) [],
              reg_handlers = foldr (\<lambda>(n, h) acc. AList.update n h acc) (reg_handlers r) []\<rparr>"

text \<open>The loop of \<open>registryFor\<close> over the tools a client declared stops at the first refusal.\<close>

fun register_clients :: "'h registry \<Rightarrow> tool_def list \<Rightarrow> (string \<times> reg_error) + 'h registry" where
  "register_clients r [] = Inr r"
| "register_clients r (d # ds) =
     (case register_client r d of
        Inl e \<Rightarrow> Inl (td_name d, e)
      | Inr r' \<Rightarrow> register_clients r' ds)"

section \<open>Invariant\<close>

text \<open>
  A registry is well formed when its keys are distinct, every definition is stored under its own
  non-empty name with a valid risk and non-empty parameters, handlers belong to registered
  server tools, and every registered server tool has a handler.
\<close>

definition reg_wf :: "'h registry \<Rightarrow> bool" where
  "reg_wf r \<longleftrightarrow>
     distinct (List.map fst (reg_defs r)) \<and> distinct (List.map fst (reg_handlers r)) \<and>
     (\<forall>(n, d) \<in> set (reg_defs r). n = td_name d \<and> n \<noteq> '''' \<and> risk_valid (td_risk d) \<and> td_parameters d \<noteq> '''' \<and>
        (td_side d = SideServer \<longleftrightarrow> n \<in> fst ` set (reg_handlers r))) \<and>
     fst ` set (reg_handlers r) \<subseteq> fst ` set (reg_defs r)"

lemma new_registry_wf [simp]: "reg_wf new_registry"
  by (simp add: reg_wf_def new_registry_def)

lemma empty_params_not_Nil [simp]: "empty_params \<noteq> []"
  by (simp add: empty_params_def)

lemma register_def_Inr:
  "register_def r d = Inr r' \<longleftrightarrow>
     td_name d \<noteq> '''' \<and> risk_valid (td_risk d) \<and> td_name d \<notin> fst ` set (reg_defs r) \<and>
     r' = r\<lparr>reg_defs := (td_name d, if td_parameters d = '''' then d\<lparr>td_parameters := empty_params\<rparr> else d)
              # reg_defs r\<rparr>"
  by (auto simp: register_def_def Let_def map_of_eq_None_iff)

lemma register_def_lookup:
  "register_def r d = Inr r' \<Longrightarrow>
     reg_definition r' n = (if n = td_name d
       then Some (if td_parameters d = '''' then d\<lparr>td_parameters := empty_params\<rparr> else d)
       else reg_definition r n)"
  by (auto simp: register_def_Inr reg_definition_def)

lemma register_def_handlers: "register_def r d = Inr r' \<Longrightarrow> reg_handlers r' = reg_handlers r"
  by (auto simp: register_def_Inr)

lemma register_client_wf: "reg_wf r \<Longrightarrow> register_client r d = Inr r' \<Longrightarrow> reg_wf r'"
  unfolding register_client_def register_def_Inr reg_wf_def by auto

lemma register_server_wf:
  assumes wf: "reg_wf r" and reg: "register_server r d h = Inr r'"
  shows "reg_wf r'"
proof -
  obtain f r1 where f: "h = Some f" and r1: "register_def r (d\<lparr>td_side := SideServer\<rparr>) = Inr r1"
    and r': "r' = r1\<lparr>reg_handlers := AList.update (td_name d) f (reg_handlers r1)\<rparr>"
    using reg by (auto simp: register_server_def split: option.splits sum.splits)
  have h1: "reg_handlers r1 = reg_handlers r" using r1 by (rule register_def_handlers)
  have fresh: "td_name d \<notin> fst ` set (reg_defs r)" using r1 by (simp add: register_def_Inr)
  then have fresh': "\<And>b. (td_name d, b) \<notin> set (reg_defs r)" by force
  have dom: "fst ` set (AList.update (td_name d) f (reg_handlers r)) = insert (td_name d) (fst ` set (reg_handlers r))"
    by (simp add: dom_update)
  show ?thesis
    using wf r1 fresh fresh' unfolding r' reg_wf_def register_def_Inr
    by (auto simp: h1 dom distinct_update)
qed

lemma reg_wf_definition:
  "reg_wf r \<Longrightarrow> reg_definition r n = Some d \<Longrightarrow> td_name d = n \<and> risk_valid (td_risk d)"
  unfolding reg_wf_def reg_definition_def by (auto dest!: map_of_SomeD)

lemma reg_wf_handler_iff:
  assumes "reg_wf r" "reg_definition r n = Some d"
  shows "reg_handler r n \<noteq> None \<longleftrightarrow> td_side d = SideServer"
proof -
  have "(n, d) \<in> set (reg_defs r)" using assms(2) by (auto simp: reg_definition_def dest: map_of_SomeD)
  then have "td_side d = SideServer \<longleftrightarrow> n \<in> fst ` set (reg_handlers r)"
    using assms(1) by (auto simp: reg_wf_def)
  then show ?thesis by (simp add: reg_handler_def map_of_eq_None_iff)
qed

section \<open>Cloning and ordering\<close>

lemma map_of_foldr_update:
  "map_of (foldr (\<lambda>(n, d) acc. AList.update n d acc) xs []) = map_of xs"
  by (induction xs) (auto simp: update_conv fun_eq_iff)

lemma clone_lookup [simp]:
  "reg_definition (clone r) n = reg_definition r n" "reg_handler (clone r) n = reg_handler r n"
  by (simp_all add: clone_def reg_definition_def reg_handler_def map_of_foldr_update)

lemma dom_foldr_update:
  "fst ` set (foldr (\<lambda>(n, d) acc. AList.update n d acc) xs []) = fst ` set xs"
  by (simp flip: dom_map_of_conv_image_fst add: map_of_foldr_update)

lemma distinct_foldr_update:
  "distinct (List.map fst (foldr (\<lambda>(n, d) acc. AList.update n d acc) xs []))"
  by (induction xs) (auto simp: distinct_update)

lemma set_foldr_update:
  "distinct (List.map fst xs) \<Longrightarrow> set (foldr (\<lambda>(n, d) acc. AList.update n d acc) xs []) = set xs"
  by (metis distinct_foldr_update map_of_foldr_update map_of_inject_set)

lemma clone_wf: "reg_wf r \<Longrightarrow> reg_wf (clone r)"
  unfolding reg_wf_def clone_def
  by (simp add: distinct_foldr_update set_foldr_update)

lemma clone_definitions:
  assumes "reg_wf r"
  shows "set (definitions (clone r)) = set (definitions r)"
  using assms by (simp add: definitions_def clone_def reg_wf_def set_foldr_update)

lemma definitions_distinct_names:
  assumes "reg_wf r"
  shows "distinct (List.map td_name (definitions r))"
proof -
  have eq: "List.map td_name (List.map snd (reg_defs r)) = List.map fst (reg_defs r)"
    using assms by (auto simp: reg_wf_def)
  have "distinct (List.map td_name (List.map snd (reg_defs r)))"
    unfolding eq using assms by (simp add: reg_wf_def)
  moreover have "mset (List.map td_name (definitions r)) = mset (List.map td_name (List.map snd (reg_defs r)))"
    by (simp only: definitions_def mset_map mset_sort)
  ultimately show ?thesis by (metis mset_eq_imp_distinct_iff)
qed

lemma definitions_sorted: "sorted (List.map td_name (definitions r))"
  by (simp add: definitions_def)

lemma definitions_mem:
  assumes "reg_wf r"
  shows "d \<in> set (definitions r) \<longleftrightarrow> reg_definition r (td_name d) = Some d"
proof -
  have "d \<in> set (definitions r) \<longleftrightarrow> d \<in> snd ` set (reg_defs r)" by (simp add: definitions_def)
  also have "\<dots> \<longleftrightarrow> (td_name d, d) \<in> set (reg_defs r)"
    using assms by (force simp: reg_wf_def)
  also have "\<dots> \<longleftrightarrow> map_of (reg_defs r) (td_name d) = Some d"
    using assms by (simp add: reg_wf_def)
  finally show ?thesis by (simp add: reg_definition_def)
qed

section \<open>Layering a client's tools\<close>

text \<open>What the client's tools may not do: change a server tool, or gain a handler.\<close>

lemma register_clients_keeps:
  "register_clients r ds = Inr r' \<Longrightarrow> reg_definition r n = Some d \<Longrightarrow> reg_definition r' n = Some d"
proof (induction r ds rule: register_clients.induct)
  case (2 r d' ds)
  then obtain r1 where r1: "register_client r d' = Inr r1" and rest: "register_clients r1 ds = Inr r'"
    by (auto split: sum.splits)
  have "n \<noteq> td_name d'"
    using r1 2(3) by (auto simp: register_client_def register_def_Inr reg_definition_def
        dest: map_of_Some_dom)
  then have "reg_definition r1 n = Some d"
    using r1 2(3) register_def_lookup [of r "d'\<lparr>td_side := SideClient\<rparr>" r1 n]
    by (simp add: register_client_def)
  with 2(1) [OF r1 rest] show ?case by simp
qed simp

lemma register_clients_handlers:
  "register_clients r ds = Inr r' \<Longrightarrow> reg_handlers r' = reg_handlers r"
proof (induction r ds rule: register_clients.induct)
  case (2 r d ds)
  then show ?case
    by (auto simp: register_client_def dest: register_def_handlers split: sum.splits)
qed simp

lemma register_clients_wf: "reg_wf r \<Longrightarrow> register_clients r ds = Inr r' \<Longrightarrow> reg_wf r'"
proof (induction r ds rule: register_clients.induct)
  case (2 r d ds)
  then show ?case by (auto dest: register_client_wf split: sum.splits)
qed simp

lemma register_clients_side:
  "register_clients r ds = Inr r' \<Longrightarrow> reg_definition r' n = Some d \<Longrightarrow> reg_definition r n = None \<Longrightarrow>
     td_side d = SideClient \<and> n \<in> td_name ` set ds"
proof (induction r ds rule: register_clients.induct)
  case (2 r d' ds)
  then obtain r1 where r1: "register_client r d' = Inr r1" and rest: "register_clients r1 ds = Inr r'"
    by (auto split: sum.splits)
  note look = register_def_lookup [OF r1 [unfolded register_client_def], of n]
  show ?case
  proof (cases "n = td_name d'")
    case True
    with look have "\<exists>d1. reg_definition r1 n = Some d1 \<and> td_side d1 = SideClient" by auto
    then obtain d1 where d1: "reg_definition r1 n = Some d1" "td_side d1 = SideClient" by blast
    with register_clients_keeps [OF rest d1(1)] 2(3) True show ?thesis by simp
  next
    case False
    with look 2(4) have "reg_definition r1 n = None" by simp
    with 2(1) [OF r1 rest 2(3)] show ?thesis by auto
  qed
qed simp

lemma register_clients_new:
  "register_clients r ds = Inr r' \<Longrightarrow> reg_definition r' n = Some d \<Longrightarrow> reg_definition r n = None \<Longrightarrow>
     \<exists>d0 \<in> set ds. td_name d0 = n \<and> td_risk d0 = td_risk d"
proof (induction r ds rule: register_clients.induct)
  case (2 r d' ds)
  then obtain r1 where r1: "register_client r d' = Inr r1" and rest: "register_clients r1 ds = Inr r'"
    by (auto split: sum.splits)
  note look = register_def_lookup [OF r1 [unfolded register_client_def], of n]
  show ?case
  proof (cases "n = td_name d'")
    case True
    with look have "\<exists>d1. reg_definition r1 n = Some d1 \<and> td_risk d1 = td_risk d'" by auto
    then obtain d1 where d1: "reg_definition r1 n = Some d1" "td_risk d1 = td_risk d'" by blast
    with register_clients_keeps [OF rest d1(1)] 2(3) True show ?thesis by auto
  next
    case False
    with look 2(4) have "reg_definition r1 n = None" by simp
    with 2(1) [OF r1 rest 2(3)] show ?thesis by auto
  qed
qed simp

text \<open>A registry only the server filled: what \<open>Register\<close> keeps and a client's declarations end.\<close>

definition server_only :: "'h registry \<Rightarrow> bool" where
  "server_only r \<longleftrightarrow> (\<forall>n d. reg_definition r n = Some d \<longrightarrow> td_side d = SideServer)"

lemma new_registry_server_only [simp]: "server_only new_registry"
  by (simp add: server_only_def new_registry_def reg_definition_def)

lemma server_only_lookup: "server_only r \<Longrightarrow> reg_definition r n = Some d \<Longrightarrow> td_side d = SideServer"
  by (simp add: server_only_def)

lemma clone_server_only: "server_only r \<Longrightarrow> server_only (clone r)"
  by (simp add: server_only_def)

lemma register_server_only: "server_only r \<Longrightarrow> register_server r d h = Inr r' \<Longrightarrow> server_only r'"
  by (auto simp: register_server_def register_def_Inr server_only_def reg_definition_def
      split: option.splits sum.splits if_splits)

section \<open>Properties\<close>

text \<open>C33: Layering a client's declared tools over a registry never changes or removes a tool that was
  there, never adds a handler, and every tool it adds is a client-side one the client named.\<close>

theorem client_tools_only_extend:
  assumes "register_clients r ds = Inr r'"
  shows "reg_handlers r' = reg_handlers r \<and>
    (case reg_definition r n of
       Some d \<Rightarrow> reg_definition r' n = Some d
     | None \<Rightarrow> (case reg_definition r' n of None \<Rightarrow> True
                | Some d \<Rightarrow> td_side d = SideClient \<and> n \<in> td_name ` set ds))"
  using register_clients_handlers [OF assms] register_clients_keeps [OF assms] register_clients_side [OF assms]
  by (auto split: option.splits)

definition demo_def :: "string \<Rightarrow> risk \<Rightarrow> tool_def" where
  "demo_def n r = \<lparr>td_name = n, td_description = '''', td_parameters = ''{}'', td_risk = r, td_side = SideServer\<rparr>"

lemma client_tools_only_extend_witness:
  "\<exists>r'. register_clients (new_registry :: unit registry) [demo_def ''rename_file'' RiskWrite] = Inr r' \<and>
     reg_handlers r' = []"
proof -
  obtain r' where r': "register_clients (new_registry :: unit registry) [demo_def ''rename_file'' RiskWrite] = Inr r'"
    by (simp add: register_client_def register_def_def new_registry_def demo_def_def)
  from client_tools_only_extend [OF r'] have "reg_handlers r' = []" by (simp add: new_registry_def)
  with r' show ?thesis by blast
qed

end
