(* ===== verification/LlmRouter.thy ===== *)
theory LlmRouter
  imports ToolReg
begin

text \<open>
  Messages, requests and responses (\<open>internal/llm/llm.go\<close>), the metrics sample
  (\<open>internal/llm/metrics.go\<close>) and the router (\<open>internal/llm/router.go\<close>).

  A provider is code on the far side of a network: it is a parameter, a function from the
  outside world and a request to a response or an error and the next world. The same world says
  whether the turn's context is cancelled, what the clock reads and which backend set is
  installed, because a concurrent \<open>Replace\<close> may swap the set between any two lookups of a turn.
  \<open>env_yield\<close> is such a point between two lookups with no call in between.
\<close>

section \<open>Messages\<close>

datatype role = RoleSystem | RoleUser | RoleAssistant | RoleTool

record message =
  msg_role :: role
  msg_content :: string
  msg_tool_calls :: "tool_call list"
  msg_tool_call_id :: string
  msg_is_error :: bool
  msg_thinking :: "string list"
  msg_backend :: string
  msg_model :: string
  msg_token_count :: int

definition blank_message :: "role \<Rightarrow> message" where
  "blank_message r = \<lparr>msg_role = r, msg_content = '''', msg_tool_calls = [], msg_tool_call_id = '''',
     msg_is_error = False, msg_thinking = [], msg_backend = '''', msg_model = '''', msg_token_count = 0\<rparr>"

definition user_message :: "string \<Rightarrow> message" where
  "user_message text = (blank_message RoleUser)\<lparr>msg_content := text\<rparr>"

definition tool_message :: "tool_result \<Rightarrow> message" where
  "tool_message r = (blank_message RoleTool)\<lparr>msg_content := tr_content r,
     msg_tool_call_id := tr_call_id r, msg_is_error := tr_is_error r\<rparr>"

record request =
  rq_system :: string
  rq_messages :: "message list"
  rq_tools :: "tool_def list"
  rq_model :: string

record usage =
  us_prompt :: int
  us_completion :: int
  us_total :: int

record response =
  rp_message :: message
  rp_stop_reason :: string
  rp_usage :: usage

section \<open>Backends, samples and the router\<close>

type_synonym 'w provider = "'w \<Rightarrow> request \<Rightarrow> (string + response) \<times> 'w"

record 'w backend =
  be_name :: string
  be_provider :: "'w provider"
  be_model :: string
  be_cloud :: bool

record sample =
  sm_backend :: string
  sm_model :: string
  sm_prompt_tokens :: int
  sm_completion_tokens :: int
  sm_duration :: int
  sm_failed :: bool
  sm_fell_back :: bool

record 'w router =
  rt_backends :: "(string \<times> 'w backend) list"
  rt_order :: "string list"
  rt_def :: string
  rt_fallback :: string
  rt_recorder :: bool

record 'w env =
  env_router :: "'w \<Rightarrow> 'w router"
  env_ctx_err :: "'w \<Rightarrow> bool"
  env_now :: "'w \<Rightarrow> int"
  env_yield :: "'w \<Rightarrow> 'w"

datatype router_error =
    NoBackendsConfigured
  | BackendHasNoName
  | DuplicateBackend string
  | DefaultNotConfigured string
  | FallbackNotConfigured string

datatype complete_error =
    ErrNoBackend string
  | ErrProvider string
  | ErrBothFailed string string string string

text \<open>\<open>Backend.Complete\<close> supplies the backend's default model when the request names none.\<close>

definition backend_complete :: "'w backend \<Rightarrow> 'w \<Rightarrow> request \<Rightarrow> (string + response) \<times> 'w" where
  "backend_complete b w req =
     be_provider b w (if rq_model req = '''' then req\<lparr>rq_model := be_model b\<rparr> else req)"

fun collect_backends ::
  "'w backend list \<Rightarrow> (string \<times> 'w backend) list \<Rightarrow> string list \<Rightarrow>
     router_error + (string \<times> 'w backend) list \<times> string list" where
  "collect_backends [] nxt order = Inr (nxt, order)"
| "collect_backends (b # bs) nxt order =
     (if be_name b = '''' then Inl BackendHasNoName
      else if map_of nxt (be_name b) \<noteq> None then Inl (DuplicateBackend (be_name b))
      else collect_backends bs ((be_name b, b) # nxt) (order @ [be_name b]))"

text \<open>\<open>Replace\<close> returns the error, if any, and the router afterwards.\<close>

definition replace ::
  "'w router \<Rightarrow> 'w backend list \<Rightarrow> string \<Rightarrow> string \<Rightarrow> router_error option \<times> 'w router" where
  "replace r backends def fallback =
     (if backends = [] then (Some NoBackendsConfigured, r)
      else case collect_backends backends [] [] of
        Inl e \<Rightarrow> (Some e, r)
      | Inr (nxt, order0) \<Rightarrow>
          let order = sort order0;
              def' = (if def = '''' then hd order else def)
          in if map_of nxt def' = None then (Some (DefaultNotConfigured def'), r)
             else if fallback \<noteq> '''' \<and> map_of nxt fallback = None
               then (Some (FallbackNotConfigured fallback), r)
             else (None, r\<lparr>rt_backends := nxt, rt_order := order, rt_def := def', rt_fallback := fallback\<rparr>))"

definition new_router :: "'w backend list \<Rightarrow> string \<Rightarrow> string \<Rightarrow> router_error + 'w router" where
  "new_router backends def fallback =
     (case replace \<lparr>rt_backends = [], rt_order = [], rt_def = '''', rt_fallback = '''', rt_recorder = False\<rparr>
             backends def fallback of
        (Some e, _) \<Rightarrow> Inl e
      | (None, r) \<Rightarrow> Inr r)"

definition with_recorder :: "'w router \<Rightarrow> bool \<Rightarrow> 'w router" where
  "with_recorder r rec = r\<lparr>rt_recorder := rec\<rparr>"

definition names :: "'w router \<Rightarrow> string list" where
  "names r = rt_order r"

definition lookup_backend :: "'w router \<Rightarrow> string \<Rightarrow> 'w backend option" where
  "lookup_backend r name = map_of (rt_backends r) (if name = '''' then rt_def r else name)"

record result =
  rs_response :: response
  rs_backend :: string
  rs_model :: string
  rs_fell_back_from :: string
  rs_fallback_reason :: string

definition ellipsis :: string where "ellipsis = [CHR 0xE2, CHR 0x80, CHR 0xA6]"

definition trim_error :: "string \<Rightarrow> string" where
  "trim_error err =
     (let s = trim_space err in if length s > 200 then take 200 s @ ellipsis else s)"

text \<open>The unexported \<open>complete\<close>: one call against one backend, and one sample for the
  recorder unless the turn was cancelled. The recorder is looked up after the call.\<close>

definition complete_one ::
  "'w env \<Rightarrow> 'w backend \<Rightarrow> request \<Rightarrow> bool \<Rightarrow> 'w \<Rightarrow> (string + result) \<times> sample list \<times> 'w" where
  "complete_one env b req0 fell_back w =
     (let req = (if rq_model req0 = '''' then req0\<lparr>rq_model := be_model b\<rparr> else req0);
          (res, w1) = backend_complete b w req;
          tok = (case res of Inl _ \<Rightarrow> (0, 0)
                 | Inr rp \<Rightarrow> (us_prompt (rp_usage rp), us_completion (rp_usage rp)));
          smp = \<lparr>sm_backend = be_name b, sm_model = rq_model req, sm_prompt_tokens = fst tok,
                 sm_completion_tokens = snd tok, sm_duration = env_now env w1 - env_now env w,
                 sm_failed = (case res of Inl _ \<Rightarrow> True | Inr _ \<Rightarrow> False), sm_fell_back = fell_back\<rparr>;
          recorded = (if \<not> env_ctx_err env w1 \<and> rt_recorder (env_router env w1) then [smp] else [])
      in (case res of
            Inl e \<Rightarrow> (Inl e, recorded, w1)
          | Inr rp \<Rightarrow> (Inr \<lparr>rs_response = rp, rs_backend = be_name b, rs_model = rq_model req,
                        rs_fell_back_from = '''', rs_fallback_reason = ''''\<rparr>, recorded, w1)))"

definition complete ::
  "'w env \<Rightarrow> string \<Rightarrow> request \<Rightarrow> 'w \<Rightarrow> (complete_error + result) \<times> sample list \<times> 'w" where
  "complete env backend req w =
     (case lookup_backend (env_router env w) backend of
        None \<Rightarrow> (Inl (ErrNoBackend backend), [], w)
      | Some b \<Rightarrow>
          (case complete_one env b req False w of
             (Inr res, sm, w1) \<Rightarrow> (Inr res, sm, w1)
           | (Inl err, sm, w1) \<Rightarrow>
               if env_ctx_err env w1 then (Inl (ErrProvider err), sm, w1)
               else
                 let fallback = rt_fallback (env_router env w1)
                 in if fallback = '''' \<or> fallback = be_name b then (Inl (ErrProvider err), sm, w1)
                    else
                      let w2 = env_yield env w1
                      in (case lookup_backend (env_router env w2) fallback of
                            None \<Rightarrow> (Inl (ErrProvider err), sm, w2)
                          | Some fb \<Rightarrow>
                              (case complete_one env fb (req\<lparr>rq_model := ''''\<rparr>) True w2 of
                                 (Inl fb_err, sm', w3) \<Rightarrow>
                                   (Inl (ErrBothFailed (be_name b) err (be_name fb) fb_err), sm @ sm', w3)
                               | (Inr res, sm', w3) \<Rightarrow>
                                   (Inr (res\<lparr>rs_fell_back_from := be_name b,
                                             rs_fallback_reason := trim_error err\<rparr>), sm @ sm', w3)))))"

definition complete_on ::
  "'w env \<Rightarrow> string \<Rightarrow> request \<Rightarrow> 'w \<Rightarrow> (complete_error + result) \<times> sample list \<times> 'w" where
  "complete_on env backend req w =
     (case lookup_backend (env_router env w) backend of
        None \<Rightarrow> (Inl (ErrNoBackend backend), [], w)
      | Some b \<Rightarrow>
          (case complete_one env b req False w of
             (Inl err, sm, w1) \<Rightarrow> (Inl (ErrProvider err), sm, w1)
           | (Inr res, sm, w1) \<Rightarrow> (Inr res, sm, w1)))"

section \<open>Invariant of the backend set\<close>

definition router_wf :: "'w router \<Rightarrow> bool" where
  "router_wf r \<longleftrightarrow>
     distinct (List.map fst (rt_backends r)) \<and>
     (\<forall>(n, b) \<in> set (rt_backends r). n = be_name b \<and> n \<noteq> '''') \<and>
     sorted (rt_order r) \<and> set (rt_order r) = fst ` set (rt_backends r) \<and> distinct (rt_order r) \<and>
     rt_def r \<in> set (rt_order r) \<and> (rt_fallback r = '''' \<or> rt_fallback r \<in> set (rt_order r))"

lemma collect_backends_order:
  "collect_backends bs nxt order = Inr (nxt', order') \<Longrightarrow> order' = order @ List.map be_name bs"
  by (induction bs nxt order rule: collect_backends.induct)
    (auto split: if_splits simp del: map_of_eq_None_iff)

lemma collect_backends_Inr:
  "collect_backends bs nxt order = Inr (nxt', order') \<Longrightarrow>
     distinct (List.map fst nxt) \<Longrightarrow> distinct order \<Longrightarrow> set order = fst ` set nxt \<Longrightarrow>
     \<forall>(n, b) \<in> set nxt. n = be_name b \<and> n \<noteq> '''' \<Longrightarrow>
     distinct (List.map fst nxt') \<and> distinct order' \<and> set order' = fst ` set nxt' \<and>
     (\<forall>(n, b) \<in> set nxt'. n = be_name b \<and> n \<noteq> '''')"
proof (induction bs nxt order rule: collect_backends.induct)
  case (2 b bs nxt order)
  from 2(2) have nm: "be_name b \<noteq> ''''" and fresh: "map_of nxt (be_name b) = None"
    and rest: "collect_backends bs ((be_name b, b) # nxt) (order @ [be_name b]) = Inr (nxt', order')"
    by (simp_all split: if_splits del: map_of_eq_None_iff)
  have nin: "be_name b \<notin> fst ` set nxt" using fresh by (simp add: map_of_eq_None_iff)
  have "\<not> map_of nxt (be_name b) \<noteq> None" using fresh by simp
  from 2(1) [OF nm this rest] show ?case using nin nm 2(3-6) by auto
qed simp

lemma replace_ok:
  assumes "replace r bs d f = (None, r')"
  shows "router_wf r'" and "set (rt_order r') = be_name ` set bs" and "rt_recorder r' = rt_recorder r"
proof -
  obtain nxt order0 where c: "collect_backends bs [] [] = Inr (nxt, order0)" and ne: "bs \<noteq> []"
    using assms by (auto simp: replace_def split: if_splits sum.splits)
  have o: "order0 = List.map be_name bs" using collect_backends_order [OF c] by simp
  have c': "distinct (List.map fst nxt) \<and> distinct order0 \<and> set order0 = fst ` set nxt \<and>
      (\<forall>(n, b) \<in> set nxt. n = be_name b \<and> n \<noteq> '''')"
    by (rule collect_backends_Inr [OF c]) simp_all
  define d' where "d' = (if d = '''' then hd (sort order0) else d)"
  have r': "r' = r\<lparr>rt_backends := nxt, rt_order := sort order0, rt_def := d', rt_fallback := f\<rparr>"
    and d: "map_of nxt d' \<noteq> None" and f: "f = '''' \<or> map_of nxt f \<noteq> None"
    using assms ne unfolding d'_def by (auto simp: replace_def c Let_def split: if_splits)
  show "router_wf r'"
    unfolding r' router_wf_def using c' d f by (simp add: map_of_eq_None_iff)
  show "set (rt_order r') = be_name ` set bs" by (simp add: r' o)
  show "rt_recorder r' = rt_recorder r" by (simp add: r')
qed

lemma replace_rejected: "replace r bs d f = (Some e, r') \<Longrightarrow> r' = r"
  by (auto simp: replace_def Let_def split: if_splits sum.splits prod.splits)

lemma router_wf_default: "router_wf r \<Longrightarrow> \<exists>b. lookup_backend r '''' = Some b \<and> be_name b = rt_def r"
proof -
  assume wf: "router_wf r"
  then obtain b where b: "map_of (rt_backends r) (rt_def r) = Some b"
    by (metis map_of_eq_None_iff not_None_eq router_wf_def)
  then have "(rt_def r, b) \<in> set (rt_backends r)" by (rule map_of_SomeD)
  with wf have "be_name b = rt_def r" by (auto simp: router_wf_def)
  with b show ?thesis by (simp add: lookup_backend_def)
qed

lemma lookup_backend_name:
  "router_wf r \<Longrightarrow> lookup_backend r n = Some b \<Longrightarrow> be_name b = (if n = '''' then rt_def r else n)"
  by (auto simp: lookup_backend_def router_wf_def dest!: map_of_SomeD)

section \<open>What a completion may have called\<close>

lemma complete_one_result:
  "complete_one env b req fb w = (Inr res, sm, w1) \<Longrightarrow>
     rs_backend res = be_name b \<and> rs_fell_back_from res = '''' \<and> rs_fallback_reason res = '''' \<and>
     rs_model res = (if rq_model req = '''' then be_model b else rq_model req)"
  by (auto simp: complete_one_def Let_def split: prod.splits sum.splits if_splits)

text \<open>The sample describes the call that was made.\<close>

lemma complete_one_samples:
  "complete_one env b req fb w = (res, sm, w1) \<Longrightarrow> s \<in> set sm \<Longrightarrow>
     sm_backend s = be_name b \<and> sm_fell_back s = fb \<and> sm_failed s = (\<not> res_ok res) \<and> \<not> env_ctx_err env w1"
  by (auto simp: complete_one_def Let_def split: prod.splits sum.splits if_splits)

lemma complete_cases:
  assumes "complete env backend req w = (out, sm, w')"
  obtains (no_backend) "lookup_backend (env_router env w) backend = None" "out = Inl (ErrNoBackend backend)"
    "sm = []" "w' = w"
  | (served) b res where "lookup_backend (env_router env w) backend = Some b"
      "complete_one env b req False w = (Inr res, sm, w')" "out = Inr res"
  | (failed) b err w1 where "lookup_backend (env_router env w) backend = Some b"
      "complete_one env b req False w = (Inl err, sm, w1)" "out = Inl (ErrProvider err)"
      "w' = w1 \<or> w' = env_yield env w1"
      "env_ctx_err env w1 \<or> rt_fallback (env_router env w1) = '''' \<or> rt_fallback (env_router env w1) = be_name b
       \<or> lookup_backend (env_router env (env_yield env w1)) (rt_fallback (env_router env w1)) = None"
  | (fell_back) b err sm1 w1 fb sm2 r where "lookup_backend (env_router env w) backend = Some b"
      "complete_one env b req False w = (Inl err, sm1, w1)" "\<not> env_ctx_err env w1"
      "rt_fallback (env_router env w1) \<noteq> ''''" "rt_fallback (env_router env w1) \<noteq> be_name b"
      "lookup_backend (env_router env (env_yield env w1)) (rt_fallback (env_router env w1)) = Some fb"
      "complete_one env fb (req\<lparr>rq_model := ''''\<rparr>) True (env_yield env w1) = (r, sm2, w')"
      "sm = sm1 @ sm2"
      "out = (case r of Inl fe \<Rightarrow> Inl (ErrBothFailed (be_name b) err (be_name fb) fe)
              | Inr res \<Rightarrow> Inr (res\<lparr>rs_fell_back_from := be_name b, rs_fallback_reason := trim_error err\<rparr>))"
  using assms
  by (auto simp: complete_def Let_def split: option.splits prod.splits sum.splits if_splits)

section \<open>Properties\<close>

text \<open>C32: A successful \<open>Replace\<close> leaves a well-formed backend set that holds exactly the given
  backends, with the default and the fallback among them; a refused one changes nothing.\<close>

theorem replace_all_or_nothing:
  "case replace r bs d f of
     (None, r') \<Rightarrow> router_wf r' \<and> set (names r') = be_name ` set bs \<and> rt_recorder r' = rt_recorder r
   | (Some e, r') \<Rightarrow> r' = r"
  using replace_ok [of r bs d f] replace_rejected [of r bs d f]
  by (auto simp: names_def split: prod.splits option.splits)


definition demo_fail_router :: "nat router" where
  "demo_fail_router = \<lparr>rt_backends =
       [(''cloud'', \<lparr>be_name = ''cloud'', be_provider = \<lambda>w _. (Inr \<lparr>rp_message = blank_message RoleAssistant,
            rp_stop_reason = '''', rp_usage = \<lparr>us_prompt = 1, us_completion = 1, us_total = 2\<rparr>\<rparr>, w + 1),
          be_model = ''big'', be_cloud = True\<rparr>),
        (''local'', \<lparr>be_name = ''local'', be_provider = \<lambda>w _. (Inl '' boom '', w + 1), be_model = ''small'',
          be_cloud = False\<rparr>)],
     rt_order = [''cloud'', ''local''], rt_def = ''local'', rt_fallback = ''cloud'', rt_recorder = True\<rparr>"

definition demo_fail_env :: "nat env" where
  "demo_fail_env = \<lparr>env_router = \<lambda>_. demo_fail_router, env_ctx_err = \<lambda>_. False, env_now = int, env_yield = \<lambda>w. w\<rparr>"


end
