(* ===== verification/SessionStore.thy ===== *)
theory SessionStore
  imports LlmRouter
begin

text \<open>
  Clients, conversations, messages and the audit trail (\<open>internal/store/clients.go\<close>,
  \<open>sessions.go\<close>, \<open>audit.go\<close>) over the tables of \<open>internal/store/migrations\<close>. A table is
  the list of its rows in rowid order; an AUTOINCREMENT column has a counter beside it. The
  schema's constraints are written out where a statement can violate them: the primary key and
  the foreign key of a session, the foreign key of messages and audit rows (\<open>muninn\<close>), and
  the two UNIQUE columns of \<open>clients\<close>. Deleting a client or a session cascades. A failure of
  the database itself (a full disk, a lost file) is not modelled.

  JSON columns are written and read by a codec, a parameter; \<open>storable\<close> says that what is
  written for one message reads back. The clock, the random session id and the random token are
  arguments, and SHA-256 is a parameter.
\<close>

section \<open>Rows and tables\<close>

record client_row =
  cl_id :: nat
  cl_name :: string
  cl_token_hash :: string
  cl_kind :: string
  cl_created :: int
  cl_last_seen :: "int option"

record session =
  ss_id :: string
  ss_client :: nat
  ss_title :: string
  ss_backend :: string
  ss_model :: string
  ss_agent :: string
  ss_record :: bool
  ss_recall :: bool
  ss_tools :: bool
  ss_web :: bool
  ss_created :: int
  ss_updated :: int

record msg_row =
  mr_id :: nat
  mr_session :: string
  mr_seq :: nat
  mr_role :: role
  mr_content :: string
  mr_calls :: string
  mr_call_id :: string
  mr_is_error :: bool
  mr_thinking :: string
  mr_backend :: string
  mr_model :: string
  mr_tokens :: int
  mr_created :: int

record audit_entry =
  au_id :: nat
  au_session :: string
  au_call_id :: string
  au_tool :: string
  au_side :: side
  au_risk :: risk
  au_input :: string
  au_decision :: string
  au_outcome :: string
  au_is_error :: bool
  au_created :: int

record store_db =
  db_clients :: "client_row list"
  db_sessions :: "session list"
  db_messages :: "msg_row list"
  db_audit :: "audit_entry list"
  db_next_client :: nat
  db_next_message :: nat
  db_next_audit :: nat

definition empty_store :: store_db where
  "empty_store = \<lparr>db_clients = [], db_sessions = [], db_messages = [], db_audit = [],
     db_next_client = 1, db_next_message = 1, db_next_audit = 1\<rparr>"

datatype store_error =
    NotFound
  | ErrDuplicate string
  | NameRequired
  | ConstraintFailed string
  | EncodeFailed string
  | DecodeFailed string

record codec =
  cd_calls :: "tool_call list \<Rightarrow> string option"
  cd_thinking :: "string list \<Rightarrow> string option"
  cd_parse_calls :: "string \<Rightarrow> tool_call list option"
  cd_parse_thinking :: "string \<Rightarrow> string list option"

section \<open>Clients\<close>

definition create_client ::
  "(string \<Rightarrow> string) \<Rightarrow> int \<Rightarrow> string \<Rightarrow> string \<Rightarrow> string \<Rightarrow> store_db \<Rightarrow> (store_error + client_row \<times> string) \<times> store_db" where
  "create_client hash now token name0 kind db =
     (let name = trim_space name0 in
      if name = '''' then (Inl NameRequired, db)
      else if \<exists>c \<in> set (db_clients db). cl_name c = name \<or> cl_token_hash c = hash token
        then (Inl (ErrDuplicate name), db)
      else
        let c = \<lparr>cl_id = db_next_client db, cl_name = name, cl_token_hash = hash token, cl_kind = kind,
                 cl_created = now, cl_last_seen = None\<rparr>
        in (Inr (c, token), db\<lparr>db_clients := db_clients db @ [c], db_next_client := db_next_client db + 1\<rparr>))"

definition client_by_token :: "(string \<Rightarrow> string) \<Rightarrow> string \<Rightarrow> store_db \<Rightarrow> store_error + client_row" where
  "client_by_token hash token db =
     (if token = '''' then Inl NotFound
      else case first_row (\<lambda>c. cl_token_hash c = hash token) (db_clients db) of
        None \<Rightarrow> Inl NotFound
      | Some c \<Rightarrow> if cl_token_hash c \<noteq> hash token then Inl NotFound else Inr c)"

definition touch_client :: "int \<Rightarrow> nat \<Rightarrow> store_db \<Rightarrow> store_db" where
  "touch_client now cid db =
     db\<lparr>db_clients := update_rows (\<lambda>c. cl_id c = cid) (\<lambda>c. c\<lparr>cl_last_seen := Some now\<rparr>) (db_clients db)\<rparr>"

definition list_clients :: "store_db \<Rightarrow> client_row list" where
  "list_clients db = sort_key cl_id (db_clients db)"

text \<open>Removing sessions takes their messages and audit rows with them (ON DELETE CASCADE).\<close>

definition drop_sessions :: "(session \<Rightarrow> bool) \<Rightarrow> store_db \<Rightarrow> store_db" where
  "drop_sessions p db =
     (let gone = List.map ss_id (filter p (db_sessions db))
      in db\<lparr>db_sessions := filter (\<lambda>s. \<not> p s) (db_sessions db),
            db_messages := filter (\<lambda>r. mr_session r \<notin> set gone) (db_messages db),
            db_audit := filter (\<lambda>e. au_session e \<notin> set gone) (db_audit db)\<rparr>)"

definition delete_client :: "string \<Rightarrow> store_db \<Rightarrow> (store_error + unit) \<times> store_db" where
  "delete_client name db =
     (case first_row (\<lambda>c. cl_name c = name) (db_clients db) of
        None \<Rightarrow> (Inl NotFound, db)
      | Some c \<Rightarrow>
          (Inr (), (drop_sessions (\<lambda>s. ss_client s = cl_id c) db)
                     \<lparr>db_clients := filter (\<lambda>c'. cl_name c' \<noteq> name) (db_clients db)\<rparr>))"

section \<open>Sessions\<close>

definition create_session ::
  "string \<Rightarrow> int \<Rightarrow> nat \<Rightarrow> string \<Rightarrow> string \<Rightarrow> string \<Rightarrow> string \<Rightarrow> bool \<Rightarrow> store_db \<Rightarrow> (store_error + session) \<times> store_db" where
  "create_session sid now client title backend model agent tools db =
     (if client \<notin> cl_id ` set (db_clients db) then (Inl (ConstraintFailed ''client_id''), db)
      else if sid \<in> ss_id ` set (db_sessions db) then (Inl (ConstraintFailed ''id''), db)
      else
        let s = \<lparr>ss_id = sid, ss_client = client, ss_title = title, ss_backend = backend, ss_model = model,
                 ss_agent = agent, ss_record = True, ss_recall = True, ss_tools = tools, ss_web = False,
                 ss_created = now, ss_updated = now\<rparr>
        in (Inr s, db\<lparr>db_sessions := db_sessions db @ [s]\<rparr>))"

definition update_sessions :: "(session \<Rightarrow> bool) \<Rightarrow> (session \<Rightarrow> session) \<Rightarrow> store_db \<Rightarrow> store_db" where
  "update_sessions p f db = db\<lparr>db_sessions := update_rows p f (db_sessions db)\<rparr>"

definition set_session_model :: "int \<Rightarrow> string \<Rightarrow> string \<Rightarrow> string \<Rightarrow> store_db \<Rightarrow> store_db" where
  "set_session_model now sid backend model db =
     update_sessions (\<lambda>s. ss_id s = sid) (\<lambda>s. s\<lparr>ss_backend := backend, ss_model := model, ss_updated := now\<rparr>) db"

definition owned :: "string \<Rightarrow> nat \<Rightarrow> session \<Rightarrow> bool" where
  "owned sid client s \<longleftrightarrow> ss_id s = sid \<and> ss_client s = client"

definition delete_session :: "string \<Rightarrow> nat \<Rightarrow> store_db \<Rightarrow> (store_error + unit) \<times> store_db" where
  "delete_session sid client db =
     (if \<not> (\<exists>s \<in> set (db_sessions db). owned sid client s) then (Inl NotFound, db)
      else (Inr (), drop_sessions (owned sid client) db))"

definition set_session_memory ::
  "int \<Rightarrow> string \<Rightarrow> nat \<Rightarrow> bool \<Rightarrow> bool \<Rightarrow> store_db \<Rightarrow> (store_error + unit) \<times> store_db" where
  "set_session_memory now sid client rec recall db =
     (let db1 = update_sessions (owned sid client)
                  (\<lambda>s. s\<lparr>ss_record := rec, ss_recall := recall, ss_updated := now\<rparr>) db
      in if \<not> (\<exists>s \<in> set (db_sessions db). owned sid client s) then (Inl NotFound, db)
         else if \<not> rec
           then (Inr (), db1\<lparr>db_messages := filter (\<lambda>r. mr_session r \<noteq> sid) (db_messages db1)\<rparr>)
         else (Inr (), db1))"

definition set_session_web :: "int \<Rightarrow> string \<Rightarrow> nat \<Rightarrow> bool \<Rightarrow> store_db \<Rightarrow> (store_error + unit) \<times> store_db" where
  "set_session_web now sid client web db =
     (if \<not> (\<exists>s \<in> set (db_sessions db). owned sid client s) then (Inl NotFound, db)
      else (Inr (), update_sessions (owned sid client) (\<lambda>s. s\<lparr>ss_web := web, ss_updated := now\<rparr>) db))"

definition delete_message :: "string \<Rightarrow> nat \<Rightarrow> nat \<Rightarrow> store_db \<Rightarrow> (store_error + unit) \<times> store_db" where
  "delete_message sid client mid db =
     (let hit = (\<lambda>r. mr_id r = mid \<and> mr_session r = sid \<and>
                   mr_session r \<in> ss_id ` {s \<in> set (db_sessions db). ss_client s = client})
      in if \<not> (\<exists>r \<in> set (db_messages db). hit r) then (Inl NotFound, db)
         else (Inr (), db\<lparr>db_messages := filter (\<lambda>r. \<not> hit r) (db_messages db)\<rparr>))"

definition session_lookup :: "string \<Rightarrow> nat \<Rightarrow> store_db \<Rightarrow> store_error + session" where
  "session_lookup sid client db =
     (case first_row (owned sid client) (db_sessions db) of None \<Rightarrow> Inl NotFound | Some s \<Rightarrow> Inr s)"

definition list_sessions :: "nat \<Rightarrow> int \<Rightarrow> store_db \<Rightarrow> session list" where
  "list_sessions client limit db =
     (let n = (if limit \<le> 0 then 50 else nat limit)
      in take n (sort_key (\<lambda>s. - ss_updated s) (filter (\<lambda>s. ss_client s = client) (db_sessions db))))"

definition set_title :: "int \<Rightarrow> string \<Rightarrow> string \<Rightarrow> store_db \<Rightarrow> store_db" where
  "set_title now sid title db =
     update_sessions (\<lambda>s. ss_id s = sid) (\<lambda>s. s\<lparr>ss_title := title, ss_updated := now\<rparr>) db"

section \<open>Messages\<close>

definition encode_message :: "codec \<Rightarrow> int \<Rightarrow> string \<Rightarrow> nat \<Rightarrow> nat \<Rightarrow> message \<Rightarrow> store_error + msg_row" where
  "encode_message cd now sid seq rowid m =
     (case (if msg_tool_calls m = [] then Some '''' else cd_calls cd (msg_tool_calls m)) of
        None \<Rightarrow> Inl (EncodeFailed ''tool calls'')
      | Some calls \<Rightarrow>
          (case (if msg_thinking m = [] then Some '''' else cd_thinking cd (msg_thinking m)) of
             None \<Rightarrow> Inl (EncodeFailed ''thinking'')
           | Some thinking \<Rightarrow>
               Inr \<lparr>mr_id = rowid, mr_session = sid, mr_seq = seq, mr_role = msg_role m,
                    mr_content = msg_content m, mr_calls = calls, mr_call_id = msg_tool_call_id m,
                    mr_is_error = msg_is_error m, mr_thinking = thinking, mr_backend = msg_backend m,
                    mr_model = msg_model m, mr_tokens = msg_token_count m, mr_created = now\<rparr>))"

text \<open>The loop of \<open>AppendMessages\<close>; \<open>seq\<close> is the last number used.\<close>

fun insert_messages ::
  "codec \<Rightarrow> int \<Rightarrow> string \<Rightarrow> nat \<Rightarrow> message list \<Rightarrow> store_db \<Rightarrow> (store_error + nat list) \<times> store_db" where
  "insert_messages cd now sid seq [] db = (Inr [], db)"
| "insert_messages cd now sid seq (m # ms) db =
     (case encode_message cd now sid (seq + 1) (db_next_message db) m of
        Inl e \<Rightarrow> (Inl e, db)
      | Inr row \<Rightarrow>
          if sid \<notin> ss_id ` set (db_sessions db) then (Inl (ConstraintFailed ''session_id''), db)
          else if \<exists>r \<in> set (db_messages db). mr_session r = sid \<and> mr_seq r = seq + 1
            then (Inl (ConstraintFailed ''seq''), db)
          else
            (case insert_messages cd now sid (seq + 1) ms
                    (db\<lparr>db_messages := db_messages db @ [row], db_next_message := db_next_message db + 1\<rparr>) of
               (Inl e, db') \<Rightarrow> (Inl e, db')
             | (Inr ids, db') \<Rightarrow> (Inr (db_next_message db # ids), db')))"

definition max_seq :: "string \<Rightarrow> store_db \<Rightarrow> nat" where
  "max_seq sid db = foldr (\<lambda>r n. if mr_session r = sid then max (mr_seq r) n else n) (db_messages db) 0"

definition append_messages ::
  "codec \<Rightarrow> int \<Rightarrow> string \<Rightarrow> message list \<Rightarrow> store_db \<Rightarrow> (store_error + nat list) \<times> store_db" where
  "append_messages cd now sid ms db =
     (if ms = [] then (Inr [], db)
      else case insert_messages cd now sid (max_seq sid db) ms db of
        (Inl e, _) \<Rightarrow> (Inl e, db)
      | (Inr ids, db1) \<Rightarrow>
          (Inr ids, update_sessions (\<lambda>s. ss_id s = sid) (\<lambda>s. s\<lparr>ss_updated := now\<rparr>) db1))"

definition session_rows :: "string \<Rightarrow> store_db \<Rightarrow> msg_row list" where
  "session_rows sid db = sort_key mr_seq (filter (\<lambda>r. mr_session r = sid) (db_messages db))"

definition decode_message :: "codec \<Rightarrow> msg_row \<Rightarrow> store_error + message" where
  "decode_message cd r =
     (case (if mr_calls r = '''' then Some [] else cd_parse_calls cd (mr_calls r)) of
        None \<Rightarrow> Inl (DecodeFailed ''tool calls'')
      | Some calls \<Rightarrow>
          (case (if mr_thinking r = '''' then Some [] else cd_parse_thinking cd (mr_thinking r)) of
             None \<Rightarrow> Inl (DecodeFailed ''thinking'')
           | Some thinking \<Rightarrow>
               Inr \<lparr>msg_role = mr_role r, msg_content = mr_content r, msg_tool_calls = calls,
                    msg_tool_call_id = mr_call_id r, msg_is_error = mr_is_error r, msg_thinking = thinking,
                    msg_backend = mr_backend r, msg_model = mr_model r, msg_token_count = mr_tokens r\<rparr>))"

fun decode_messages :: "codec \<Rightarrow> msg_row list \<Rightarrow> store_error + message list" where
  "decode_messages cd [] = Inr []"
| "decode_messages cd (r # rs) =
     (case decode_message cd r of
        Inl e \<Rightarrow> Inl e
      | Inr m \<Rightarrow> (case decode_messages cd rs of Inl e \<Rightarrow> Inl e | Inr ms \<Rightarrow> Inr (m # ms)))"

definition messages :: "codec \<Rightarrow> string \<Rightarrow> store_db \<Rightarrow> store_error + message list" where
  "messages cd sid db = decode_messages cd (session_rows sid db)"

record turn_progress =
  tp_count :: nat
  tp_steps :: nat
  tp_last_role :: "role option"
  tp_tools :: "string list"

definition turn_progress_of :: "codec \<Rightarrow> string \<Rightarrow> store_db \<Rightarrow> turn_progress" where
  "turn_progress_of cd sid db =
     (let rows = session_rows sid db;
          last_user = foldr (\<lambda>r n. if mr_role r = RoleUser then max (mr_seq r) n else n) rows 0
      in if rows = [] then \<lparr>tp_count = 0, tp_steps = 0, tp_last_role = None, tp_tools = []\<rparr>
         else
           let newest = last rows;
               calls = mr_calls newest
           in \<lparr>tp_count = length rows,
               tp_steps = length (filter (\<lambda>r. mr_role r = RoleAssistant \<and> last_user < mr_seq r) rows),
               tp_last_role = Some (mr_role newest),
               tp_tools = (if calls = '''' then []
                           else case cd_parse_calls cd calls of None \<Rightarrow> [] | Some cs \<Rightarrow> List.map tc_name cs)\<rparr>)"

section \<open>The audit trail\<close>

definition max_outcome :: nat where "max_outcome = 4096"

definition record_tool :: "int \<Rightarrow> audit_entry \<Rightarrow> store_db \<Rightarrow> (store_error + unit) \<times> store_db" where
  "record_tool now e db =
     (let e' = (if max_outcome < length (au_outcome e)
                then e\<lparr>au_outcome := take max_outcome (au_outcome e) @ ''... (truncated)''\<rparr> else e)
      in if au_session e \<notin> ss_id ` set (db_sessions db) then (Inl (ConstraintFailed ''session_id''), db)
         else (Inr (), db\<lparr>db_audit := db_audit db @ [e'\<lparr>au_id := db_next_audit db, au_created := now\<rparr>],
                          db_next_audit := db_next_audit db + 1\<rparr>))"

definition audit_for_session :: "string \<Rightarrow> int \<Rightarrow> store_db \<Rightarrow> audit_entry list" where
  "audit_for_session sid limit db =
     (let n = (if limit \<le> 0 then 100 else nat limit)
      in take n (sort_key (\<lambda>e. - int (au_id e)) (filter (\<lambda>e. au_session e = sid) (db_audit db))))"

section \<open>The tables stay well formed\<close>

definition store_wf :: "store_db \<Rightarrow> bool" where
  "store_wf db \<longleftrightarrow>
     distinct (List.map cl_id (db_clients db)) \<and> distinct (List.map cl_name (db_clients db)) \<and>
     distinct (List.map cl_token_hash (db_clients db)) \<and>
     (\<forall>c \<in> set (db_clients db). cl_id c < db_next_client db) \<and>
     distinct (List.map ss_id (db_sessions db)) \<and>
     (\<forall>s \<in> set (db_sessions db). ss_client s \<in> cl_id ` set (db_clients db)) \<and>
     distinct (List.map mr_id (db_messages db)) \<and>
     (\<forall>r \<in> set (db_messages db). mr_id r < db_next_message db \<and> mr_session r \<in> ss_id ` set (db_sessions db)) \<and>
     distinct (List.map (\<lambda>r. (mr_session r, mr_seq r)) (db_messages db)) \<and>
     distinct (List.map au_id (db_audit db)) \<and>
     (\<forall>e \<in> set (db_audit db). au_id e < db_next_audit db \<and> au_session e \<in> ss_id ` set (db_sessions db) \<and>
        length (au_outcome e) \<le> max_outcome + 15)"

inductive store_step :: "codec \<Rightarrow> (string \<Rightarrow> string) \<Rightarrow> store_db \<Rightarrow> store_db \<Rightarrow> bool" for cd hash where
  create_client: "create_client hash now token name kind db = (res, db') \<Longrightarrow> store_step cd hash db db'"
| touch_client: "store_step cd hash db (touch_client now cid db)"
| delete_client: "delete_client name db = (res, db') \<Longrightarrow> store_step cd hash db db'"
| create_session:
    "create_session sid now client title backend model agent tools db = (res, db') \<Longrightarrow> store_step cd hash db db'"
| set_session_model: "store_step cd hash db (set_session_model now sid backend model db)"
| delete_session: "delete_session sid client db = (res, db') \<Longrightarrow> store_step cd hash db db'"
| set_session_memory:
    "set_session_memory now sid client rec recall db = (res, db') \<Longrightarrow> store_step cd hash db db'"
| set_session_web: "set_session_web now sid client web db = (res, db') \<Longrightarrow> store_step cd hash db db'"
| delete_message: "delete_message sid client mid db = (res, db') \<Longrightarrow> store_step cd hash db db'"
| set_title: "store_step cd hash db (set_title now sid title db)"
| append_messages: "append_messages cd now sid ms db = (res, db') \<Longrightarrow> store_step cd hash db db'"
| record_tool: "record_tool now e db = (res, db') \<Longrightarrow> store_step cd hash db db'"

inductive store_reachable :: "codec \<Rightarrow> (string \<Rightarrow> string) \<Rightarrow> store_db \<Rightarrow> bool" for cd hash where
  empty: "store_reachable cd hash empty_store"
| step: "store_reachable cd hash db \<Longrightarrow> store_step cd hash db db' \<Longrightarrow> store_reachable cd hash db'"

lemma empty_store_wf: "store_wf empty_store"
  by (simp add: store_wf_def empty_store_def)

lemma distinct_map_filter_rows: "distinct (List.map f xs) \<Longrightarrow> distinct (List.map f (filter p xs))"
  by (rule distinct_map_filter)

lemma update_sessions_wf:
  assumes "store_wf db" "\<And>s. ss_id (f s) = ss_id s" "\<And>s. ss_client (f s) = ss_client s"
  shows "store_wf (update_sessions p f db)"
proof -
  have ids: "List.map ss_id (update_rows p f (db_sessions db)) = List.map ss_id (db_sessions db)"
    by (rule map_update_rows) (rule assms(2))
  have img: "ss_id ` set (update_rows p f (db_sessions db)) = ss_id ` set (db_sessions db)"
    using arg_cong [OF ids, of set] by simp
  have "ss_client ` set (update_rows p f (db_sessions db)) = ss_client ` set (db_sessions db)"
    using arg_cong [OF map_update_rows [of ss_client f p "db_sessions db", OF assms(3)], of set] by simp
  then have "ss_client s \<in> ss_client ` set (db_sessions db)" if "s \<in> set (update_rows p f (db_sessions db))" for s
    using that by (metis imageI)
  then have "\<forall>s \<in> set (update_rows p f (db_sessions db)). ss_client s \<in> cl_id ` set (db_clients db)"
    using assms(1) by (fastforce simp: store_wf_def)
  with img show ?thesis
    using assms(1) by (simp add: store_wf_def update_sessions_def ids)
qed

lemma drop_sessions_wf:
  assumes wf: "store_wf db"
  shows "store_wf (drop_sessions p db)"
proof -
  have d: "distinct (List.map ss_id (db_sessions db))" using wf by (simp add: store_wf_def)
  have keep: "i \<in> ss_id ` {s \<in> set (db_sessions db). \<not> p s}"
    if "i \<in> ss_id ` set (db_sessions db)" "i \<notin> ss_id ` {s \<in> set (db_sessions db). p s}" for i
    using that by auto
  show ?thesis
    using wf keep
    by (auto simp: store_wf_def drop_sessions_def Let_def distinct_map_filter_rows)
qed

lemma delete_client_wf:
  assumes wf: "store_wf db" and del: "delete_client name db = (res, db')"
  shows "store_wf db'"
proof (cases "first_row (\<lambda>c. cl_name c = name) (db_clients db)")
  case None
  with del wf show ?thesis by (simp add: delete_client_def)
next
  case (Some c)
  then have c: "c \<in> set (db_clients db)" "cl_name c = name" by (auto dest: first_row_Some)
  have dn: "distinct (List.map cl_name (db_clients db))" using wf by (simp add: store_wf_def)
  have only: "cl_name c' = name \<Longrightarrow> c' \<in> set (db_clients db) \<Longrightarrow> c' = c" for c'
    using dn c by (auto simp: distinct_map dest: inj_onD)
  have db': "db' = (drop_sessions (\<lambda>s. ss_client s = cl_id c) db)
      \<lparr>db_clients := filter (\<lambda>c'. cl_name c' \<noteq> name) (db_clients db)\<rparr>"
    using del Some by (simp add: delete_client_def)
  have own: "\<forall>s \<in> set (db_sessions db). ss_client s \<noteq> cl_id c \<longrightarrow>
      ss_client s \<in> cl_id ` {c' \<in> set (db_clients db). cl_name c' \<noteq> name}"
    using wf only by (fastforce simp: store_wf_def)
  have "store_wf (drop_sessions (\<lambda>s. ss_client s = cl_id c) db)" using wf by (rule drop_sessions_wf)
  then show ?thesis
    using own unfolding db' store_wf_def
    by (simp add: distinct_map_filter_rows drop_sessions_def Let_def)
qed

lemma encode_message_row:
  "encode_message cd now sid seq rowid m = Inr r \<Longrightarrow> mr_session r = sid \<and> mr_seq r = seq \<and> mr_id r = rowid"
  by (auto simp: encode_message_def split: option.splits)

lemma insert_messages_wf:
  "store_wf db \<Longrightarrow> insert_messages cd now sid seq ms db = (res, db') \<Longrightarrow> store_wf db'"
proof (induction ms arbitrary: seq db res)
  case (Cons m ms)
  show ?case
  proof (cases "encode_message cd now sid (seq + 1) (db_next_message db) m")
    case (Inl e)
    with Cons.prems show ?thesis by simp
  next
    case (Inr row)
    note row = encode_message_row [OF Inr]
    define db1 where "db1 = db\<lparr>db_messages := db_messages db @ [row], db_next_message := db_next_message db + 1\<rparr>"
    show ?thesis
    proof (cases "sid \<notin> ss_id ` set (db_sessions db) \<or>
        (\<exists>r \<in> set (db_messages db). mr_session r = sid \<and> mr_seq r = seq + 1)")
      case True
      with Cons.prems Inr show ?thesis by (auto split: if_splits)
    next
      case False
      have "store_wf db1"
        using Cons.prems(1) False row unfolding db1_def store_wf_def
        by (simp add: image_iff) (metis less_irrefl less_SucI less_Suc_eq)
      moreover obtain res1 where "insert_messages cd now sid (seq + 1) ms db1 = (res1, db')"
        using Cons.prems(2) Inr False by (auto simp: db1_def split: sum.splits prod.splits if_splits)
      ultimately show ?thesis by (rule Cons.IH)
    qed
  qed
qed simp

lemma append_messages_wf:
  assumes "store_wf db" "append_messages cd now sid ms db = (res, db')"
  shows "store_wf db'"
proof -
  obtain res1 db1 where ins: "insert_messages cd now sid (max_seq sid db) ms db = (res1, db1)"
    by (cases "insert_messages cd now sid (max_seq sid db) ms db")
  have "store_wf db1" using assms(1) ins by (rule insert_messages_wf)
  then have "store_wf (update_sessions (\<lambda>s. ss_id s = sid) (\<lambda>s. s\<lparr>ss_updated := now\<rparr>) db1)"
    by (rule update_sessions_wf) simp_all
  with assms ins show ?thesis
    by (auto simp: append_messages_def split: if_splits sum.splits)
qed

lemma record_tool_cases:
  assumes "record_tool now e db = (res, db')"
  obtains (orphan) "res = Inl (ConstraintFailed ''session_id'')" "db' = db" "au_session e \<notin> ss_id ` set (db_sessions db)"
  | (recorded) e' where "res = Inr ()" "au_session e \<in> ss_id ` set (db_sessions db)"
      "db' = db\<lparr>db_audit := db_audit db @ [e'], db_next_audit := db_next_audit db + 1\<rparr>"
      "au_id e' = db_next_audit db" "au_session e' = au_session e" "length (au_outcome e') \<le> max_outcome + 15"
proof (cases "au_session e \<in> ss_id ` set (db_sessions db)")
  case True
  define e' where "e' = (if max_outcome < length (au_outcome e)
      then e\<lparr>au_outcome := take max_outcome (au_outcome e) @ ''... (truncated)''\<rparr> else e)
      \<lparr>au_id := db_next_audit db, au_created := now\<rparr>"
  have "length (au_outcome e') \<le> max_outcome + 15" by (simp add: e'_def)
  moreover have "au_id e' = db_next_audit db" "au_session e' = au_session e" by (simp_all add: e'_def)
  ultimately show ?thesis
    using assms True recorded [of e'] by (auto simp: record_tool_def Let_def e'_def)
next
  case False
  with assms orphan show ?thesis by (auto simp: record_tool_def Let_def)
qed

lemma record_tool_wf: "store_wf db \<Longrightarrow> record_tool now e db = (res, db') \<Longrightarrow> store_wf db'"
  by (erule record_tool_cases) (auto simp: store_wf_def)

lemma create_client_wf:
  assumes wf: "store_wf db" and c: "create_client hash now token name kind db = (res, db')"
  shows "store_wf db'"
proof (cases "trim_space name = '''' \<or>
    (\<exists>c \<in> set (db_clients db). cl_name c = trim_space name \<or> cl_token_hash c = hash token)")
  case True
  with c wf show ?thesis by (auto simp: create_client_def Let_def split: if_splits)
next
  case False
  define row where "row = \<lparr>cl_id = db_next_client db, cl_name = trim_space name, cl_token_hash = hash token,
      cl_kind = kind, cl_created = now, cl_last_seen = None\<rparr>"
  have db': "db' = db\<lparr>db_clients := db_clients db @ [row], db_next_client := db_next_client db + 1\<rparr>"
    using c False by (simp add: create_client_def Let_def row_def)
  have "cl_id row \<notin> cl_id ` set (db_clients db)" "cl_name row \<notin> cl_name ` set (db_clients db)"
    "cl_token_hash row \<notin> cl_token_hash ` set (db_clients db)"
    using False wf by (auto simp: row_def store_wf_def)
  moreover have "cl_id row < db_next_client db'" by (simp add: row_def db')
  ultimately show ?thesis using wf by (auto simp: store_wf_def db' intro: less_SucI)
qed

lemma touch_client_wf:
  assumes "store_wf db"
  shows "store_wf (touch_client now cid db)"
proof -
  have m: "List.map g (update_rows p (\<lambda>c. c\<lparr>cl_last_seen := Some now\<rparr>) cs) = List.map g cs"
    if "\<And>c. g (c\<lparr>cl_last_seen := Some now\<rparr>) = g c" for g :: "client_row \<Rightarrow> 'b" and p and cs :: "client_row list" 
    using that by (rule map_update_rows)
  have ids: "cl_id ` set (update_rows p (\<lambda>c. c\<lparr>cl_last_seen := Some now\<rparr>) cs) = cl_id ` set cs"
    for p and cs :: "client_row list"
    using arg_cong [OF m [of cl_id p cs], of set] by simp
  have lt: "(\<forall>c \<in> set (update_rows p (\<lambda>c. c\<lparr>cl_last_seen := Some now\<rparr>) cs). cl_id c < n) \<longleftrightarrow>
      (\<forall>c \<in> set cs. cl_id c < n)" for p n and cs :: "client_row list"
    by (rule ball_map_eq) (rule m, simp)
  show ?thesis using assms by (simp add: store_wf_def touch_client_def m ids lt)
qed

lemma delete_message_wf: "store_wf db \<Longrightarrow> delete_message sid client mid db = (res, db') \<Longrightarrow> store_wf db'"
  by (auto simp: delete_message_def store_wf_def Let_def distinct_map_filter_rows split: if_splits)

lemma set_session_memory_wf:
  assumes "store_wf db" "set_session_memory now sid client rec recall db = (res, db')"
  shows "store_wf db'"
proof -
  define db1 where "db1 = update_sessions (owned sid client)
      (\<lambda>s. s\<lparr>ss_record := rec, ss_recall := recall, ss_updated := now\<rparr>) db"
  have "store_wf db1" unfolding db1_def by (rule update_sessions_wf [OF assms(1)]) simp_all
  moreover have "db' = db \<or> db' = db1 \<or> db' = db1\<lparr>db_messages := filter (\<lambda>r. mr_session r \<noteq> sid) (db_messages db1)\<rparr>"
    using assms(2) by (auto simp: set_session_memory_def db1_def Let_def split: if_splits)
  ultimately show ?thesis
    using assms(1) by (auto simp: store_wf_def distinct_map_filter_rows)
qed

lemma store_step_wf: "store_step cd hash db db' \<Longrightarrow> store_wf db \<Longrightarrow> store_wf db'"
proof (induction rule: store_step.induct)
  case (create_session sid now client title backend model agent tools db res db')
  then show ?case by (auto simp: create_session_def store_wf_def Let_def split: if_splits)
next
  case (delete_session sid client db res db')
  then show ?case by (auto simp: delete_session_def intro: drop_sessions_wf split: if_splits)
next
  case (set_session_web now sid client web db res db')
  then show ?case by (auto simp: set_session_web_def intro!: update_sessions_wf split: if_splits)
qed (auto simp: set_session_model_def set_title_def intro!: update_sessions_wf touch_client_wf
  intro: create_client_wf delete_client_wf append_messages_wf record_tool_wf delete_message_wf
    set_session_memory_wf)

lemma store_reachable_wf: "store_reachable cd hash db \<Longrightarrow> store_wf db"
  by (induction rule: store_reachable.induct) (auto intro: empty_store_wf store_step_wf)

section \<open>A transcript reads back what was appended\<close>

definition storable :: "codec \<Rightarrow> message \<Rightarrow> bool" where
  "storable cd m \<longleftrightarrow>
     (msg_tool_calls m = [] \<or>
      (case cd_calls cd (msg_tool_calls m) of None \<Rightarrow> False
       | Some s \<Rightarrow> s \<noteq> '''' \<and> cd_parse_calls cd s = Some (msg_tool_calls m))) \<and>
     (msg_thinking m = [] \<or>
      (case cd_thinking cd (msg_thinking m) of None \<Rightarrow> False
       | Some s \<Rightarrow> s \<noteq> '''' \<and> cd_parse_thinking cd s = Some (msg_thinking m)))"

lemma decode_encode:
  assumes st: "storable cd m" and enc: "encode_message cd now sid seq rowid m = Inr r"
  shows "decode_message cd r = Inr m"
proof -
  from enc obtain calls thinking where
    c: "(if msg_tool_calls m = [] then Some '''' else cd_calls cd (msg_tool_calls m)) = Some calls" and
    t: "(if msg_thinking m = [] then Some '''' else cd_thinking cd (msg_thinking m)) = Some thinking"
    by (auto simp: encode_message_def split: option.splits)
  have r: "mr_calls r = calls" "mr_thinking r = thinking" "mr_role r = msg_role m" "mr_content r = msg_content m"
    "mr_call_id r = msg_tool_call_id m" "mr_is_error r = msg_is_error m" "mr_backend r = msg_backend m"
    "mr_model r = msg_model m" "mr_tokens r = msg_token_count m"
    using enc unfolding encode_message_def c t by auto
  have "(if calls = '''' then Some [] else cd_parse_calls cd calls) = Some (msg_tool_calls m)"
    using st c by (auto simp: storable_def split: option.splits if_splits)
  moreover have "(if thinking = '''' then Some [] else cd_parse_thinking cd thinking) = Some (msg_thinking m)"
    using st t by (auto simp: storable_def split: option.splits if_splits)
  ultimately have "decode_message cd r = Inr \<lparr>msg_role = msg_role m, msg_content = msg_content m,
      msg_tool_calls = msg_tool_calls m, msg_tool_call_id = msg_tool_call_id m, msg_is_error = msg_is_error m,
      msg_thinking = msg_thinking m, msg_backend = msg_backend m, msg_model = msg_model m,
      msg_token_count = msg_token_count m\<rparr>"
    unfolding decode_message_def r by simp
  then show ?thesis by simp
qed

lemma decode_messages_append:
  "decode_messages cd (xs @ ys) =
     (case decode_messages cd xs of Inl e \<Rightarrow> Inl e
      | Inr ms \<Rightarrow> (case decode_messages cd ys of Inl e \<Rightarrow> Inl e | Inr ns \<Rightarrow> Inr (ms @ ns)))"
  by (induction xs) (auto split: sum.splits)

lemma insert_messages_rows:
  "insert_messages cd now sid seq ms db = (Inr ids, db') \<Longrightarrow>
     \<exists>rows. db' = db\<lparr>db_messages := db_messages db @ rows, db_next_message := db_next_message db + length ms\<rparr> \<and>
       List.map mr_seq rows = [seq + 1..<seq + 1 + length ms] \<and> (\<forall>r \<in> set rows. mr_session r = sid) \<and>
       List.map mr_id rows = ids \<and> ids = [db_next_message db..<db_next_message db + length ms] \<and>
       ((\<forall>m \<in> set ms. storable cd m) \<longrightarrow> decode_messages cd rows = Inr ms)"
proof (induction ms arbitrary: seq db ids)
  case (Cons m ms)
  from Cons.prems obtain row where row: "encode_message cd now sid (seq + 1) (db_next_message db) m = Inr row"
    by (auto split: sum.splits)
  define db1 where "db1 = db\<lparr>db_messages := db_messages db @ [row], db_next_message := db_next_message db + 1\<rparr>"
  from Cons.prems row obtain ids1 where
    rest: "insert_messages cd now sid (seq + 1) ms db1 = (Inr ids1, db')" and ids: "ids = db_next_message db # ids1"
    by (auto simp: db1_def split: sum.splits prod.splits if_splits)
  from Cons.IH [OF rest] obtain rows where rows:
    "db' = db1\<lparr>db_messages := db_messages db1 @ rows, db_next_message := db_next_message db1 + length ms\<rparr>"
    "List.map mr_seq rows = [seq + 1 + 1..<seq + 1 + 1 + length ms]" "\<forall>r \<in> set rows. mr_session r = sid"
    "List.map mr_id rows = ids1" "ids1 = [db_next_message db1..<db_next_message db1 + length ms]"
    "(\<forall>m \<in> set ms. storable cd m) \<longrightarrow> decode_messages cd rows = Inr ms"
    by blast
  note r = encode_message_row [OF row]
  have "(\<forall>x \<in> set (m # ms). storable cd x) \<longrightarrow> decode_messages cd (row # rows) = Inr (m # ms)"
    using rows(6) decode_encode [OF _ row] by auto
  moreover have "List.map mr_seq (row # rows) = [seq + 1..<seq + 1 + length (m # ms)]"
    using rows(2) r by (simp add: upt_conv_Cons del: upt_Suc)
  moreover have "ids = [db_next_message db..<db_next_message db + length (m # ms)]"
    using rows(5) ids by (simp add: db1_def upt_conv_Cons del: upt_Suc)
  ultimately show ?case
    using rows(1,3,4) r ids by (intro exI [of _ "row # rows"]) (simp add: db1_def del: upt_Suc)
qed simp

lemma max_seq_bound:
  assumes "r \<in> set (db_messages db)" "mr_session r = sid"
  shows "mr_seq r \<le> max_seq sid db"
proof -
  have "r \<in> set rs \<Longrightarrow> mr_seq r \<le> foldr (\<lambda>r n. if mr_session r = sid then max (mr_seq r) n else n) rs 0" for rs
    using assms(2) by (induction rs) auto
  with assms(1) show ?thesis by (simp add: max_seq_def)
qed

lemma append_messages_rows:
  assumes "append_messages cd now sid ms db = (Inr ids, db')"
  obtains rows where "session_rows sid db' = session_rows sid db @ rows"
    "\<And>sid'. sid' \<noteq> sid \<Longrightarrow> session_rows sid' db' = session_rows sid' db"
    "List.map mr_seq rows = [max_seq sid db + 1..<max_seq sid db + 1 + length ms]"
    "List.map mr_id rows = ids" "(\<forall>m \<in> set ms. storable cd m) \<longrightarrow> decode_messages cd rows = Inr ms"
proof (cases "ms = []")
  case True
  with assms show ?thesis by (intro that [of "[]"]) (auto simp: append_messages_def)
next
  case False
  with assms obtain db1 where ins: "insert_messages cd now sid (max_seq sid db) ms db = (Inr ids, db1)"
    and db': "db' = update_sessions (\<lambda>s. ss_id s = sid) (\<lambda>s. s\<lparr>ss_updated := now\<rparr>) db1"
    by (auto simp: append_messages_def split: prod.splits sum.splits)
  from insert_messages_rows [OF ins] obtain rows where rows:
    "db1 = db\<lparr>db_messages := db_messages db @ rows, db_next_message := db_next_message db + length ms\<rparr>"
    "List.map mr_seq rows = [max_seq sid db + 1..<max_seq sid db + 1 + length ms]"
    "\<forall>r \<in> set rows. mr_session r = sid" "List.map mr_id rows = ids"
    "(\<forall>m \<in> set ms. storable cd m) \<longrightarrow> decode_messages cd rows = Inr ms"
    by blast
  have own: "filter (\<lambda>r. mr_session r = sid) rows = rows" using rows(3) by (simp add: filter_id_conv)
  have other: "filter (\<lambda>r. mr_session r = sid') rows = []" if "sid' \<noteq> sid" for sid'
    using rows(3) that by (auto simp: filter_empty_conv)
  have later: "mr_seq x \<le> mr_seq y"
    if "x \<in> set (filter (\<lambda>r. mr_session r = sid) (db_messages db))" "y \<in> set rows" for x y
  proof -
    have "mr_seq y \<in> set (List.map mr_seq rows)" using that(2) by simp
    then have "max_seq sid db < mr_seq y" unfolding rows(2) by (simp del: upt_Suc)
    moreover have "mr_seq x \<le> max_seq sid db" using that(1) by (intro max_seq_bound) auto
    ultimately show ?thesis by simp
  qed
  have "sorted (List.map mr_seq rows)" by (simp add: rows(2) del: upt_Suc)
  with later have "sort_key mr_seq (filter (\<lambda>r. mr_session r = sid) (db_messages db) @ rows) =
      sort_key mr_seq (filter (\<lambda>r. mr_session r = sid) (db_messages db)) @ rows"
    by (rule sort_key_append_later)
  then have "session_rows sid db' = session_rows sid db @ rows"
    unfolding session_rows_def db' update_sessions_def rows(1)
    using own by simp
  moreover have "session_rows sid' db' = session_rows sid' db" if "sid' \<noteq> sid" for sid'
    using other [OF that] by (simp add: session_rows_def db' update_sessions_def rows(1))
  ultimately show ?thesis using rows(2,4,5) by (intro that)
qed

lemma append_messages_length:
  assumes "append_messages cd now sid ms db = (Inr ids, db')"
  shows "length ids = length ms"
proof (rule append_messages_rows [OF assms])
  fix rows assume "List.map mr_seq rows = [max_seq sid db + 1..<max_seq sid db + 1 + length ms]" "List.map mr_id rows = ids"
  then have "length ids = length [max_seq sid db + 1..<max_seq sid db + 1 + length ms]" by (metis length_map)
  then show ?thesis by (simp del: upt_Suc)
qed

lemma append_messages_reads:
  assumes app: "append_messages cd now sid ms db = (Inr ids, db')" and st: "\<forall>m \<in> set ms. storable cd m"
    and h: "messages cd sid db = Inr h"
  shows "messages cd sid db' = Inr (h @ ms)"
proof -
  from append_messages_rows [OF app] obtain rows where "session_rows sid db' = session_rows sid db @ rows"
    "(\<forall>m \<in> set ms. storable cd m) \<longrightarrow> decode_messages cd rows = Inr ms" by metis
  with st h show ?thesis by (simp add: messages_def decode_messages_append)
qed

lemma append_messages_other:
  assumes "append_messages cd now sid ms db = (res, db')" "sid' \<noteq> sid"
  shows "messages cd sid' db' = messages cd sid' db"
proof (cases res)
  case (Inl e)
  with assms show ?thesis by (auto simp: append_messages_def split: if_splits prod.splits sum.splits)
next
  case (Inr ids)
  with assms append_messages_rows [of cd now sid ms db ids db'] show ?thesis
    by (metis messages_def)
qed

lemma append_messages_rejected: "append_messages cd now sid ms db = (Inl e, db') \<Longrightarrow> db' = db"
  by (auto simp: append_messages_def split: if_splits prod.splits sum.splits)

text \<open>On well-formed tables the UNIQUE constraint on \<open>(session_id, seq)\<close> never fires.\<close>

lemma insert_messages_succeeds:
  "sid \<in> ss_id ` set (db_sessions db) \<Longrightarrow>
   (\<And>r. r \<in> set (db_messages db) \<Longrightarrow> mr_session r = sid \<Longrightarrow> mr_seq r \<le> seq) \<Longrightarrow>
   \<forall>m \<in> set ms. storable cd m \<Longrightarrow> \<exists>ids db'. insert_messages cd now sid seq ms db = (Inr ids, db')"
proof (induction ms arbitrary: seq db)
  case (Cons m ms)
  have "\<exists>row. encode_message cd now sid (seq + 1) (db_next_message db) m = Inr row"
    using Cons.prems(3) by (auto simp: encode_message_def storable_def split: option.splits)
  then obtain row where row: "encode_message cd now sid (seq + 1) (db_next_message db) m = Inr row" ..
  define db1 where "db1 = db\<lparr>db_messages := db_messages db @ [row], db_next_message := db_next_message db + 1\<rparr>"
  have "\<exists>ids db'. insert_messages cd now sid (seq + 1) ms db1 = (Inr ids, db')"
  proof (rule Cons.IH)
    show "sid \<in> ss_id ` set (db_sessions db1)" using Cons.prems(1) by (simp add: db1_def)
    fix r assume "r \<in> set (db_messages db1)" "mr_session r = sid"
    with Cons.prems(2) [of r] encode_message_row [OF row] show "mr_seq r \<le> seq + 1"
      by (auto simp: db1_def)
  qed (use Cons.prems(3) in simp)
  moreover have "\<not> (\<exists>r \<in> set (db_messages db). mr_session r = sid \<and> mr_seq r = seq + 1)"
    using Cons.prems(2) by fastforce
  ultimately show ?case
    using row Cons.prems(1) by (auto simp: db1_def split: sum.splits prod.splits)
qed simp

lemma append_messages_succeeds:
  assumes "sid \<in> ss_id ` set (db_sessions db)" "\<forall>m \<in> set ms. storable cd m"
  shows "\<exists>ids db'. append_messages cd now sid ms db = (Inr ids, db')"
proof -
  have "\<exists>ids db'. insert_messages cd now sid (max_seq sid db) ms db = (Inr ids, db')"
    by (rule insert_messages_succeeds [OF assms(1) max_seq_bound assms(2)])
  then show ?thesis by (auto simp: append_messages_def)
qed

section \<open>A concrete codec\<close>

text \<open>
  A codec that reads back everything: a string is written character by character, each after a
  \<open>1\<close>, and ended by a \<open>0\<close>; a list of strings likewise. It stands in for JSON where a statement
  has to be evaluated.
\<close>

fun put_string :: "string \<Rightarrow> string \<Rightarrow> string" where
  "put_string [] rest = CHR ''0'' # rest"
| "put_string (c # cs) rest = CHR ''1'' # c # put_string cs rest"

fun put_strings :: "string list \<Rightarrow> string" where
  "put_strings [] = ''0''"
| "put_strings (s # ss) = CHR ''1'' # put_string s (put_strings ss)"

fun get_string :: "string \<Rightarrow> (string \<times> string) option" where
  "get_string [] = None"
| "get_string [c] = (if c = CHR ''0'' then Some ('''', '''') else None)"
| "get_string (c # d # rest) =
     (if c = CHR ''0'' then Some ('''', d # rest)
      else case get_string rest of None \<Rightarrow> None | Some (s, r) \<Rightarrow> Some (d # s, r))"

fun get_strings :: "nat \<Rightarrow> string \<Rightarrow> string list option" where
  "get_strings 0 _ = None"
| "get_strings (Suc n) [] = None"
| "get_strings (Suc n) (c # rest) =
     (if c = CHR ''0'' then Some []
      else case get_string rest of None \<Rightarrow> None
        | Some (s, r) \<Rightarrow> (case get_strings n r of None \<Rightarrow> None | Some ss \<Rightarrow> Some (s # ss)))"

fun calls_of :: "string list \<Rightarrow> tool_call list" where
  "calls_of (i # n # inp # rest) = \<lparr>tc_id = i, tc_name = n, tc_input = inp\<rparr> # calls_of rest"
| "calls_of _ = []"

definition framed_codec :: codec where
  "framed_codec = \<lparr>
     cd_calls = \<lambda>cs. Some (put_strings (concat (List.map (\<lambda>c. [tc_id c, tc_name c, tc_input c]) cs))),
     cd_thinking = \<lambda>ts. Some (put_strings ts),
     cd_parse_calls = \<lambda>s. map_option calls_of (get_strings (length s) s),
     cd_parse_thinking = \<lambda>s. get_strings (length s) s\<rparr>"

lemma get_put_string: "rest \<noteq> [] \<Longrightarrow> get_string (put_string s rest) = Some (s, rest)"
proof (induction s)
  case Nil
  then show ?case by (cases rest) auto
qed simp

lemma put_strings_not_Nil [simp]: "put_strings ss \<noteq> []"
  by (cases ss) simp_all

lemma length_put_string: "length (put_string s rest) = 2 * length s + 1 + length rest"
  by (induction s) simp_all

lemma get_put_strings: "length (put_strings ss) \<le> n \<Longrightarrow> get_strings n (put_strings ss) = Some ss"
proof (induction ss arbitrary: n)
  case Nil
  then show ?case by (cases n) simp_all
next
  case (Cons s ss)
  then obtain k where k: "n = Suc k" by (cases n) simp_all
  have "length (put_strings ss) \<le> k" using Cons.prems k by (simp add: length_put_string)
  with Cons.IH k show ?case by (simp add: get_put_string)
qed

lemma calls_of_concat: "calls_of (concat (List.map (\<lambda>c. [tc_id c, tc_name c, tc_input c]) cs)) = cs"
  by (induction cs) simp_all

lemma framed_codec_storable: "storable framed_codec m"
  by (simp add: storable_def framed_codec_def get_put_strings calls_of_concat)

section \<open>Properties\<close>

text \<open>C22: In every database the operations can produce, ids and keys are unique and below their
  counters, every session belongs to a client, every message and audit row to a session, sequence
  numbers do not repeat within a session, and audit outcomes are bounded.\<close>

theorem reachable_tables_wf: "store_reachable cd hash db \<Longrightarrow> store_wf db"
  by (rule store_reachable_wf)

lemma reachable_tables_wf_witness: "store_wf (snd (create_client rev 7 ''tok'' ''laptop'' ''harness'' empty_store))"
proof (rule reachable_tables_wf)
  show "store_reachable framed_codec rev (snd (create_client rev 7 ''tok'' ''laptop'' ''harness'' empty_store))"
    by (rule store_reachable.step [OF store_reachable.empty])
      (rule store_step.create_client, rule prod.collapse [symmetric])
qed

text \<open>C19: Messages appended to a stored conversation are read back behind the ones that were there, in
  order, and no other conversation's messages change; appending to an existing session succeeds.\<close>

theorem append_then_read:
  assumes "sid \<in> ss_id ` set (db_sessions db)" "list_all (storable cd) ms" "messages cd sid db = Inr h"
  shows "\<exists>ids db'. append_messages cd now sid ms db = (Inr ids, db') \<and> messages cd sid db' = Inr (h @ ms) \<and>
           length ids = length ms \<and> (sid2 = sid \<or> messages cd sid2 db' = messages cd sid2 db)"
proof -
  have st: "\<forall>m \<in> set ms. storable cd m" using assms(2) by (simp add: list_all_iff)
  from append_messages_succeeds [OF assms(1) st] obtain ids db' where
    app: "append_messages cd now sid ms db = (Inr ids, db')" by blast
  have "messages cd sid2 db' = messages cd sid2 db" if "sid2 \<noteq> sid"
    using append_messages_other [OF app that] .
  with app append_messages_reads [OF app st assms(3)] append_messages_length [OF app] show ?thesis by blast
qed

definition demo_store :: store_db where
  "demo_store = empty_store\<lparr>db_sessions := [\<lparr>ss_id = ''s1'', ss_client = 1, ss_title = '''', ss_backend = '''',
     ss_model = '''', ss_agent = '''', ss_record = True, ss_recall = True, ss_tools = True, ss_web = False,
     ss_created = 1, ss_updated = 1\<rparr>]\<rparr>"

lemma append_then_read_witness:
  "\<exists>ids db'. append_messages framed_codec 3 ''s1'' [user_message ''hi''] demo_store = (Inr ids, db') \<and>
     messages framed_codec ''s1'' db' = Inr [user_message ''hi'']"
proof -
  have "messages framed_codec ''s1'' demo_store = Inr []"
    by (simp add: messages_def session_rows_def demo_store_def empty_store_def)
  from append_then_read [OF _ _ this, of "[user_message ''hi'']" 3 "''s1''"] show ?thesis
    by (auto simp: demo_store_def framed_codec_storable)
qed



end
