(* ===== verification/Transcript.thy ===== *)
theory Transcript
  imports SessionStore
begin

text \<open>
  Where a conversation's history lives (\<open>internal/agent/transcript.go\<close>): the pool of
  off-the-record conversations, the store, and the pair of both that serves a conversation once
  any part of it was off the record. The pool's Go map is an association list; the two places
  that iterate over it (\<open>evictLocked\<close>) walk the list. Times are nanoseconds. Every clock
  reading goes through the service \<open>sv_clock\<close>, which may answer anything.
\<close>

section \<open>The in-memory pool\<close>

record esession =
  es_messages :: "message list"
  es_last :: int

record ephemeral =
  ep_sessions :: "(string \<times> esession) list"
  ep_max :: int
  ep_ttl :: int

definition new_ephemeral :: "int \<Rightarrow> int \<Rightarrow> ephemeral" where
  "new_ephemeral max_sessions ttl =
     \<lparr>ep_sessions = [], ep_max = (if max_sessions \<le> 0 then 64 else max_sessions),
      ep_ttl = (if ttl \<le> 0 then 12 * 3600 * 1000000000 else ttl)\<rparr>"

text \<open>The inner loop of \<open>evictLocked\<close>: the empty id stands for "none chosen yet".\<close>

definition pick_oldest :: "string \<times> int \<Rightarrow> string \<times> esession \<Rightarrow> string \<times> int" where
  "pick_oldest best entry =
     (if fst best = '''' \<or> es_last (snd entry) < snd best \<or> es_last (snd entry) = snd best \<and> fst entry < fst best
      then (fst entry, es_last (snd entry)) else best)"

definition oldest :: "(string \<times> esession) list \<Rightarrow> string \<times> int" where
  "oldest xs = foldl pick_oldest ('''', 0) xs"

lemma foldl_pick_mem:
  "fst (foldl pick_oldest b xs) = fst b \<or> fst (foldl pick_oldest b xs) \<in> fst ` set xs"
proof (induction xs arbitrary: b)
  case (Cons x xs)
  have "fst (pick_oldest b x) = fst b \<or> fst (pick_oldest b x) = fst x" by (simp add: pick_oldest_def)
  with Cons [of "pick_oldest b x"] show ?case by auto
qed simp

lemma oldest_mem: "fst (oldest xs) \<noteq> '''' \<Longrightarrow> fst (oldest xs) \<in> fst ` set xs"
  using foldl_pick_mem [of "('''', 0)" xs] by (auto simp: oldest_def)

function evict_over :: "int \<Rightarrow> (string \<times> esession) list \<Rightarrow> (string \<times> esession) list" where
  "evict_over limit xs =
     (if int (length xs) \<le> limit then xs
      else if fst (oldest xs) = '''' then xs
      else evict_over limit (filter (\<lambda>(i, _). i \<noteq> fst (oldest xs)) xs))"
  by pat_completeness auto
termination
proof (relation "measure (\<lambda>(limit, xs). length xs)")
  fix limit :: int and xs :: "(string \<times> esession) list"
  assume "fst (oldest xs) \<noteq> ''''"
  then obtain x where "x \<in> set xs" "fst x = fst (oldest xs)" using oldest_mem by fastforce
  then have "length (filter (\<lambda>(i, _). i \<noteq> fst (oldest xs)) xs) < length xs"
    by (intro length_filter_less [of x]) auto
  then show "((limit, filter (\<lambda>(i, _). i \<noteq> fst (oldest xs)) xs), limit, xs) \<in> measure (\<lambda>(limit, xs). length xs)"
    by simp
qed simp

declare evict_over.simps [simp del]

definition evict :: "int \<Rightarrow> ephemeral \<Rightarrow> ephemeral" where
  "evict now e =
     e\<lparr>ep_sessions := evict_over (ep_max e) (filter (\<lambda>(_, s). \<not> (now - es_last s > ep_ttl e)) (ep_sessions e))\<rparr>"

definition pool_messages :: "string \<Rightarrow> ephemeral \<Rightarrow> message list" where
  "pool_messages sid e = (case map_of (ep_sessions e) sid of None \<Rightarrow> [] | Some s \<Rightarrow> es_messages s)"

text \<open>\<open>Append\<close>; the two times are the two readings of the clock.\<close>

definition pool_append :: "int \<Rightarrow> int \<Rightarrow> string \<Rightarrow> message list \<Rightarrow> ephemeral \<Rightarrow> ephemeral" where
  "pool_append t1 t2 sid ms e =
     evict t2 (e\<lparr>ep_sessions := AList.update sid \<lparr>es_messages = pool_messages sid e @ ms, es_last = t1\<rparr> (ep_sessions e)\<rparr>)"

definition pool_read :: "int \<Rightarrow> string \<Rightarrow> ephemeral \<Rightarrow> message list \<times> ephemeral" where
  "pool_read t sid e =
     (case map_of (ep_sessions e) sid of
        None \<Rightarrow> ([], e)
      | Some s \<Rightarrow> (es_messages s, e\<lparr>ep_sessions := AList.update sid (s\<lparr>es_last := t\<rparr>) (ep_sessions e)\<rparr>))"

definition pool_seed :: "int \<Rightarrow> int \<Rightarrow> string \<Rightarrow> message list \<Rightarrow> ephemeral \<Rightarrow> ephemeral" where
  "pool_seed t1 t2 sid ms e =
     evict t2 (e\<lparr>ep_sessions := AList.update sid \<lparr>es_messages = ms, es_last = t1\<rparr> (ep_sessions e)\<rparr>)"

definition pool_has :: "string \<Rightarrow> ephemeral \<Rightarrow> bool" where
  "pool_has sid e = (case map_of (ep_sessions e) sid of None \<Rightarrow> False | Some _ \<Rightarrow> True)"

definition pool_len :: "string \<Rightarrow> ephemeral \<Rightarrow> nat" where
  "pool_len sid e = (case map_of (ep_sessions e) sid of None \<Rightarrow> 0 | Some s \<Rightarrow> length (es_messages s))"

definition pool_drop :: "string \<Rightarrow> ephemeral \<Rightarrow> ephemeral" where
  "pool_drop sid e = e\<lparr>ep_sessions := filter (\<lambda>(i, _). i \<noteq> sid) (ep_sessions e)\<rparr>"

section \<open>The world of a turn, and the transcripts\<close>

text \<open>\<open>wl_index\<close> records what the retrieval indexer was told; \<open>wl_ext\<close> is everything
  outside the server's own state, and \<open>wl_samples\<close> what the metrics recorder was given.\<close>

record 'x world =
  wl_db :: store_db
  wl_pool :: "ephemeral option"
  wl_index :: "nat list list"
  wl_samples :: "sample list"
  wl_ext :: 'x

record 'x services =
  sv_codec :: codec
  sv_clock :: "'x \<Rightarrow> int \<times> 'x"
  sv_indexer :: bool

datatype transcript = StoreTranscript | DualTranscript bool

definition read_clock :: "('x, 'a) services_scheme \<Rightarrow> 'x world \<Rightarrow> int \<times> 'x world" where
  "read_clock sv w = (let (t, x) = sv_clock sv (wl_ext w) in (t, w\<lparr>wl_ext := x\<rparr>))"

definition store_append ::
  "('x, 'a) services_scheme \<Rightarrow> string \<Rightarrow> message list \<Rightarrow> 'x world \<Rightarrow> (store_error + unit) \<times> 'x world" where
  "store_append sv sid ms w =
     (let (now, w1) = read_clock sv w;
          (res, db) = append_messages (sv_codec sv) now sid ms (wl_db w1);
          w2 = w1\<lparr>wl_db := db\<rparr>
      in case res of
           Inl e \<Rightarrow> (Inl e, w2)
         | Inr ids \<Rightarrow> (Inr (), if sv_indexer sv then w2\<lparr>wl_index := wl_index w2 @ [ids]\<rparr> else w2))"

definition memory_append :: "('x, 'a) services_scheme \<Rightarrow> string \<Rightarrow> message list \<Rightarrow> 'x world \<Rightarrow> 'x world" where
  "memory_append sv sid ms w =
     (case wl_pool w of
        None \<Rightarrow> w
      | Some e \<Rightarrow>
          if ms = [] then w
          else
            let (t1, w1) = read_clock sv w; (t2, w2) = read_clock sv w1
            in w2\<lparr>wl_pool := Some (pool_append t1 t2 sid ms e)\<rparr>)"

definition memory_read :: "('x, 'a) services_scheme \<Rightarrow> string \<Rightarrow> 'x world \<Rightarrow> message list \<times> 'x world" where
  "memory_read sv sid w =
     (case wl_pool w of
        None \<Rightarrow> ([], w)
      | Some e \<Rightarrow>
          let (t, w1) = (if pool_has sid e then read_clock sv w else (0, w)); (ms, e') = pool_read t sid e
          in (ms, w1\<lparr>wl_pool := Some e'\<rparr>))"

definition transcript_append ::
  "('x, 'a) services_scheme \<Rightarrow> transcript \<Rightarrow> string \<Rightarrow> message list \<Rightarrow> 'x world \<Rightarrow> (store_error + unit) \<times> 'x world" where
  "transcript_append sv tr sid ms w =
     (case tr of
        StoreTranscript \<Rightarrow> store_append sv sid ms w
      | DualTranscript persist \<Rightarrow>
          let w1 = memory_append sv sid ms w
          in if \<not> persist then (Inr (), w1) else store_append sv sid ms w1)"

definition transcript_messages ::
  "('x, 'a) services_scheme \<Rightarrow> transcript \<Rightarrow> string \<Rightarrow> 'x world \<Rightarrow> (store_error + message list) \<times> 'x world" where
  "transcript_messages sv tr sid w =
     (case tr of
        StoreTranscript \<Rightarrow> (messages (sv_codec sv) sid (wl_db w), w)
      | DualTranscript _ \<Rightarrow> (let (ms, w') = memory_read sv sid w in (Inr ms, w')))"

definition transcript_for :: "session \<Rightarrow> 'x world \<Rightarrow> transcript" where
  "transcript_for sess w =
     (case wl_pool w of
        None \<Rightarrow> StoreTranscript
      | Some e \<Rightarrow>
          if \<not> ss_record sess \<or> pool_has (ss_id sess) e then DualTranscript (ss_record sess)
          else StoreTranscript)"

definition set_memory ::
  "('x, 'a) services_scheme \<Rightarrow> session \<Rightarrow> bool \<Rightarrow> bool \<Rightarrow> 'x world \<Rightarrow> (store_error + unit) \<times> 'x world" where
  "set_memory sv sess rec recall w =
     (let finish = (\<lambda>w. let (now, w1) = read_clock sv w;
                            (res, db) = set_session_memory now (ss_id sess) (ss_client sess) rec recall (wl_db w1)
                        in (res, w1\<lparr>wl_db := db\<rparr>))
      in case wl_pool w of
           None \<Rightarrow> finish w
         | Some e \<Rightarrow>
             if \<not> rec \<and> ss_record sess
             then (case messages (sv_codec sv) (ss_id sess) (wl_db w) of
                     Inl err \<Rightarrow> (Inl err, w)
                   | Inr history \<Rightarrow>
                       let (t1, w1) = read_clock sv w; (t2, w2) = read_clock sv w1
                       in finish (w2\<lparr>wl_pool := Some (pool_seed t1 t2 (ss_id sess) history e)\<rparr>))
             else finish w)"

definition ephemeral_messages :: "('x, 'a) services_scheme \<Rightarrow> string \<Rightarrow> 'x world \<Rightarrow> message list \<times> 'x world" where
  "ephemeral_messages sv sid w = memory_read sv sid w"

definition ephemeral_len :: "string \<Rightarrow> 'x world \<Rightarrow> nat" where
  "ephemeral_len sid w = (case wl_pool w of None \<Rightarrow> 0 | Some e \<Rightarrow> pool_len sid e)"

section \<open>Eviction\<close>

definition pool_wf :: "ephemeral \<Rightarrow> bool" where
  "pool_wf e \<longleftrightarrow> distinct (List.map fst (ep_sessions e)) \<and> (\<forall>(i, s) \<in> set (ep_sessions e). i \<noteq> '''') \<and>
     int (length (ep_sessions e)) \<le> ep_max e \<and> 0 < ep_max e \<and> 0 < ep_ttl e"

lemma new_ephemeral_wf: "pool_wf (new_ephemeral m t)"
  by (auto simp: pool_wf_def new_ephemeral_def)

text \<open>With no empty id in the pool, the victim is the least recently used session, the smaller
  id first among equals: the map's iteration order does not matter.\<close>

lemma foldl_pick_least:
  assumes "fst b \<noteq> ''''" "\<forall>(i, s) \<in> set xs. i \<noteq> ''''"
  shows "fst (foldl pick_oldest b xs) \<noteq> '''' \<and>
    (snd (foldl pick_oldest b xs) < snd b \<or>
     snd (foldl pick_oldest b xs) = snd b \<and> fst (foldl pick_oldest b xs) \<le> fst b) \<and>
    (\<forall>(i, s) \<in> set xs. snd (foldl pick_oldest b xs) < es_last s \<or>
       snd (foldl pick_oldest b xs) = es_last s \<and> fst (foldl pick_oldest b xs) \<le> i)"
  using assms
proof (induction xs arbitrary: b)
  case (Cons x xs)
  define b' where "b' = pick_oldest b x"
  have "fst b' \<noteq> ''''" using Cons.prems by (auto simp: b'_def pick_oldest_def split: prod.splits)
  with Cons.IH [of b'] Cons.prems(2) have ih: "fst (foldl pick_oldest b' xs) \<noteq> '''' \<and>
    (snd (foldl pick_oldest b' xs) < snd b' \<or>
     snd (foldl pick_oldest b' xs) = snd b' \<and> fst (foldl pick_oldest b' xs) \<le> fst b') \<and>
    (\<forall>(i, s) \<in> set xs. snd (foldl pick_oldest b' xs) < es_last s \<or>
       snd (foldl pick_oldest b' xs) = es_last s \<and> fst (foldl pick_oldest b' xs) \<le> i)" by simp
  have b: "snd b' < snd b \<or> snd b' = snd b \<and> fst b' \<le> fst b"
    and x: "snd b' < es_last (snd x) \<or> snd b' = es_last (snd x) \<and> fst b' \<le> fst x"
    using Cons.prems(1) by (auto simp: b'_def pick_oldest_def)
  have r: "foldl pick_oldest b (x # xs) = foldl pick_oldest b' xs" by (simp add: b'_def)
  show ?case unfolding r using ih b x by (auto split: prod.splits)
qed simp

lemma oldest_least:
  assumes "xs \<noteq> []" "\<forall>(i, s) \<in> set xs. i \<noteq> ''''"
  shows "fst (oldest xs) \<noteq> ''''" and "fst (oldest xs) \<in> fst ` set xs"
    and "(i, s) \<in> set xs \<Longrightarrow> snd (oldest xs) < es_last s \<or> snd (oldest xs) = es_last s \<and> fst (oldest xs) \<le> i"
proof -
  obtain x ys where xs: "xs = x # ys" using assms(1) by (cases xs) auto
  define b where "b = (fst x, es_last (snd x))"
  have o: "oldest xs = foldl pick_oldest b ys" by (simp add: oldest_def xs b_def pick_oldest_def)
  have "fst b \<noteq> ''''" "\<forall>(i, s) \<in> set ys. i \<noteq> ''''"
    using assms(2) by (auto simp: xs b_def split: prod.splits)
  note least = foldl_pick_least [OF this]
  show ne: "fst (oldest xs) \<noteq> ''''" using least by (simp add: o)
  then show "fst (oldest xs) \<in> fst ` set xs" by (rule oldest_mem)
  assume "(i, s) \<in> set xs"
  then have "(fst b, snd b) = (i, es_last s) \<or> (i, s) \<in> set ys" by (auto simp: xs b_def)
  then show "snd (oldest xs) < es_last s \<or> snd (oldest xs) = es_last s \<and> fst (oldest xs) \<le> i"
    using least unfolding o by auto
qed

lemma foldl_pick_entry:
  "foldl pick_oldest b xs = b \<or> (\<exists>s. (fst (foldl pick_oldest b xs), s) \<in> set xs \<and> snd (foldl pick_oldest b xs) = es_last s)"
proof (induction xs arbitrary: b)
  case (Cons x xs)
  have "pick_oldest b x = b \<or> pick_oldest b x = (fst x, es_last (snd x))" by (simp add: pick_oldest_def)
  with Cons [of "pick_oldest b x"] show ?case by (cases x) auto
qed simp

lemma oldest_entry: "xs \<noteq> [] \<Longrightarrow> \<exists>s. (fst (oldest xs), s) \<in> set xs \<and> snd (oldest xs) = es_last s"
proof (cases xs)
  case (Cons x ys)
  have "oldest xs = foldl pick_oldest (fst x, es_last (snd x)) ys" by (simp add: oldest_def Cons pick_oldest_def)
  with foldl_pick_entry [of "(fst x, es_last (snd x))" ys] show ?thesis by (cases x) (auto simp: Cons)
qed simp

lemma evict_over_props:
  "\<forall>(i, s) \<in> set xs. i \<noteq> '''' \<Longrightarrow> 0 \<le> limit \<Longrightarrow>
     set (evict_over limit xs) \<subseteq> set xs \<and> int (length (evict_over limit xs)) \<le> limit \<and>
     (distinct (List.map fst xs) \<longrightarrow> distinct (List.map fst (evict_over limit xs)))"
proof (induction limit xs rule: evict_over.induct)
  case (1 limit xs)
  show ?case
  proof (cases "int (length xs) \<le> limit")
    case True
    then show ?thesis by (simp add: evict_over.simps [of limit xs])
  next
    case False
    define ys where "ys = filter (\<lambda>(i, _). i \<noteq> fst (oldest xs)) xs"
    have "xs \<noteq> []" using False 1(3) by auto
    then have ne: "fst (oldest xs) \<noteq> ''''" using 1(2) by (rule oldest_least(1))
    have eq: "evict_over limit xs = evict_over limit ys"
      using False ne by (simp add: evict_over.simps [of limit xs] ys_def)
    have "\<forall>(i, s) \<in> set ys. i \<noteq> ''''" "set ys \<subseteq> set xs" using 1(2) by (auto simp: ys_def)
    with 1(1) [OF False ne] 1(3) distinct_map_filter [of fst xs] show ?thesis
      unfolding eq ys_def by blast
  qed
qed

text \<open>A session used strictly later than every other one survives.\<close>

lemma evict_over_keeps:
  "\<forall>(i, s) \<in> set xs. i \<noteq> '''' \<Longrightarrow> 0 < limit \<Longrightarrow> distinct (List.map fst xs) \<Longrightarrow> (k, v) \<in> set xs \<Longrightarrow>
   \<forall>(i, s) \<in> set xs. i \<noteq> k \<longrightarrow> es_last s < es_last v \<Longrightarrow> (k, v) \<in> set (evict_over limit xs)"
proof (induction limit xs rule: evict_over.induct)
  case (1 limit xs)
  show ?case
  proof (cases "int (length xs) \<le> limit")
    case True
    with 1(5) show ?thesis by (simp add: evict_over.simps [of limit xs])
  next
    case False
    define ys where "ys = filter (\<lambda>(i, _). i \<noteq> fst (oldest xs)) xs"
    have ne0: "xs \<noteq> []" using 1(5) by auto
    have ne: "fst (oldest xs) \<noteq> ''''" by (rule oldest_least(1) [OF ne0 1(2)])
    have eq: "evict_over limit xs = evict_over limit ys"
      using False ne by (simp add: evict_over.simps [of limit xs] ys_def)
    have "\<exists>x \<in> set xs. fst x \<noteq> k"
    proof (rule ccontr)
      assume "\<not> ?thesis"
      then have "fst ` set xs \<subseteq> {k}" by auto
      then have "card (fst ` set xs) \<le> 1" using card_mono [of "{k}"] by fastforce
      with 1(4) have "length xs \<le> 1" by (metis distinct_card length_map list.set_map)
      with False 1(3) show False by simp
    qed
    then obtain j t where jt: "(j, t) \<in> set xs" "j \<noteq> k" by force
    have "snd (oldest xs) \<le> es_last t" using oldest_least(3) [OF ne0 1(2) jt(1)] by auto
    also have "es_last t < es_last v" using 1(6) jt by blast
    finally have lt: "snd (oldest xs) < es_last v" .
    have "fst (oldest xs) \<noteq> k"
    proof
      assume k: "fst (oldest xs) = k"
      have "\<exists>s. (fst (oldest xs), s) \<in> set xs \<and> snd (oldest xs) = es_last s"
        by (rule oldest_entry) (rule ne0)
      then obtain s where "(k, s) \<in> set xs" "snd (oldest xs) = es_last s" using k by blast
      with 1(4,5) lt show False by (metis eq_key_imp_eq_value less_irrefl)
    qed
    then have "(k, v) \<in> set ys" using 1(5) by (auto simp: ys_def)
    moreover have "distinct (List.map fst ys)" unfolding ys_def using 1(4) by (rule distinct_map_filter)
    ultimately show ?thesis
      using 1(1) [OF False ne] 1(2,3,6) unfolding eq ys_def by auto
  qed
qed

lemma update_key_ne:
  "\<forall>(i, s) \<in> set xs. i \<noteq> '''' \<Longrightarrow> k \<noteq> '''' \<Longrightarrow> \<forall>(i, s) \<in> set (AList.update k v xs). i \<noteq> ''''"
  by (induction xs) auto

lemma evict_wf:
  assumes "distinct (List.map fst (ep_sessions e))" "\<forall>(i, s) \<in> set (ep_sessions e). i \<noteq> ''''"
    "0 < ep_max e" "0 < ep_ttl e"
  shows "pool_wf (evict now e)"
proof -
  define live where "live = filter (\<lambda>(_, s). \<not> (now - es_last s > ep_ttl e)) (ep_sessions e)"
  have "\<forall>(i, s) \<in> set live. i \<noteq> ''''" "distinct (List.map fst live)"
    using assms(1,2) distinct_map_filter [OF assms(1)] by (auto simp: live_def)
  with evict_over_props [of live "ep_max e"] assms(3,4) show ?thesis
    by (auto simp: pool_wf_def evict_def live_def [symmetric])
qed

lemma pool_update_wf:
  assumes "pool_wf e" "sid \<noteq> ''''"
  shows "pool_wf (evict now (e\<lparr>ep_sessions := AList.update sid v (ep_sessions e)\<rparr>))"
proof (rule evict_wf)
  show "\<forall>(i, s) \<in> set (ep_sessions (e\<lparr>ep_sessions := AList.update sid v (ep_sessions e)\<rparr>)). i \<noteq> ''''"
    using update_key_ne [of "ep_sessions e" sid v] assms by (simp add: pool_wf_def)
qed (use assms in \<open>auto simp: pool_wf_def distinct_update\<close>)

lemma pool_append_wf: "pool_wf e \<Longrightarrow> sid \<noteq> '''' \<Longrightarrow> pool_wf (pool_append t1 t2 sid ms e)"
  unfolding pool_append_def by (rule pool_update_wf)

lemma pool_seed_wf: "pool_wf e \<Longrightarrow> sid \<noteq> '''' \<Longrightarrow> pool_wf (pool_seed t1 t2 sid ms e)"
  unfolding pool_seed_def by (rule pool_update_wf)

section \<open>What the pool remembers\<close>

lemma evict_lookup:
  assumes "distinct (List.map fst (ep_sessions e))" "\<forall>(i, s) \<in> set (ep_sessions e). i \<noteq> ''''" "0 \<le> ep_max e"
    "map_of (ep_sessions (evict now e)) i = Some s"
  shows "map_of (ep_sessions e) i = Some s"
proof -
  define live where "live = filter (\<lambda>(_, s). \<not> (now - es_last s > ep_ttl e)) (ep_sessions e)"
  have l: "\<forall>(i, s) \<in> set live. i \<noteq> ''''" "set live \<subseteq> set (ep_sessions e)"
    using assms(2) by (auto simp: live_def)
  have "(i, s) \<in> set (evict_over (ep_max e) live)"
    using assms(4) by (auto simp: evict_def live_def dest: map_of_SomeD)
  with evict_over_props [OF l(1) assms(3)] l(2) have "(i, s) \<in> set (ep_sessions e)" by blast
  with assms(1) show ?thesis by simp
qed

lemma pool_update_lookup:
  assumes wf: "pool_wf e" and sid: "sid \<noteq> ''''"
    and look: "map_of (ep_sessions (evict now (e\<lparr>ep_sessions := AList.update sid v (ep_sessions e)\<rparr>))) i = Some s"
  shows "(if i = sid then Some v else map_of (ep_sessions e) i) = Some s"
proof -
  have "\<forall>(j, s) \<in> set (AList.update sid v (ep_sessions e)). j \<noteq> ''''"
    using update_key_ne [of "ep_sessions e" sid v] wf sid by (simp add: pool_wf_def)
  with wf have "map_of (AList.update sid v (ep_sessions e)) i = Some s"
    using evict_lookup [OF _ _ _ look] by (simp add: pool_wf_def distinct_update)
  then show ?thesis by (simp add: update_conv' split: if_splits)
qed

lemma pool_has_iff: "pool_has sid e \<longleftrightarrow> map_of (ep_sessions e) sid \<noteq> None"
  by (cases "map_of (ep_sessions e) sid") (auto simp: pool_has_def)

lemma pool_append_messages:
  assumes "pool_wf e" "sid \<noteq> ''''" "pool_has sid (pool_append t1 t2 sid ms e)"
  shows "pool_messages sid (pool_append t1 t2 sid ms e) = pool_messages sid e @ ms"
proof -
  obtain s where "map_of (ep_sessions (pool_append t1 t2 sid ms e)) sid = Some s"
    using assms(3) by (auto simp: pool_has_def split: option.splits)
  moreover from this
  have "s = \<lparr>es_messages = pool_messages sid e @ ms, es_last = t1\<rparr>"
    unfolding pool_append_def by (auto dest: pool_update_lookup [OF assms(1,2)])
  ultimately show ?thesis by (simp add: pool_messages_def [of sid "pool_append _ _ _ _ _"])
qed

lemma pool_seed_messages:
  assumes "pool_wf e" "sid \<noteq> ''''" "pool_has sid (pool_seed t1 t2 sid ms e)"
  shows "pool_messages sid (pool_seed t1 t2 sid ms e) = ms"
proof -
  obtain s where "map_of (ep_sessions (pool_seed t1 t2 sid ms e)) sid = Some s"
    using assms(3) by (auto simp: pool_has_def split: option.splits)
  moreover from this have "s = \<lparr>es_messages = ms, es_last = t1\<rparr>"
    unfolding pool_seed_def by (auto dest: pool_update_lookup [OF assms(1,2)])
  ultimately show ?thesis by (simp add: pool_messages_def)
qed

text \<open>Another conversation is either untouched or forgotten whole, never truncated.\<close>

lemma pool_append_other:
  assumes "pool_wf e" "sid \<noteq> ''''" "i \<noteq> sid" "pool_has i (pool_append t1 t2 sid ms e)"
  shows "pool_messages i (pool_append t1 t2 sid ms e) = pool_messages i e"
proof -
  obtain s where s: "map_of (ep_sessions (pool_append t1 t2 sid ms e)) i = Some s"
    using assms(4) by (auto simp: pool_has_def split: option.splits)
  with pool_update_lookup [OF assms(1,2), of t2 _ i s] assms(3) have "map_of (ep_sessions e) i = Some s"
    by (simp add: pool_append_def)
  with s show ?thesis by (simp add: pool_messages_def)
qed

lemma pool_append_keeps:
  assumes wf: "pool_wf e" and sid: "sid \<noteq> ''''" and ttl: "t2 - t1 \<le> ep_ttl e"
    and later: "\<forall>(i, s) \<in> set (ep_sessions e). i \<noteq> sid \<longrightarrow> es_last s < t1"
  shows "pool_has sid (pool_append t1 t2 sid ms e)"
proof -
  define v where "v = \<lparr>es_messages = pool_messages sid e @ ms, es_last = t1\<rparr>"
  define xs where "xs = AList.update sid v (ep_sessions e)"
  define live where "live = filter (\<lambda>(_, s). \<not> (t2 - es_last s > ep_ttl e)) xs"
  have d: "distinct (List.map fst xs)" using wf by (simp add: xs_def pool_wf_def distinct_update)
  have look: "map_of xs i = (if i = sid then Some v else map_of (ep_sessions e) i)" for i
    by (simp add: xs_def update_conv')
  have mem: "(i, s) \<in> set xs \<longleftrightarrow> map_of xs i = Some s" for i s using d by simp
  have in_live: "(sid, v) \<in> set live" using mem [of sid v] look ttl by (simp add: live_def v_def)
  have other: "\<forall>(i, s) \<in> set live. i \<noteq> sid \<longrightarrow> es_last s < es_last v"
  proof (clarsimp simp: v_def)
    fix i s assume "(i, s) \<in> set live" "i \<noteq> sid"
    then have "map_of (ep_sessions e) i = Some s" using mem [of i s] look [of i] by (simp add: live_def)
    with later \<open>i \<noteq> sid\<close> show "es_last s < t1" by (auto dest: map_of_SomeD)
  qed
  have ne: "\<forall>(i, s) \<in> set live. i \<noteq> ''''"
  proof (clarsimp)
    fix s assume "([], s) \<in> set live"
    then have "map_of xs '''' = Some s" using mem [of "''''" s] by (simp add: live_def)
    with look [of "''''"] sid have "map_of (ep_sessions e) '''' = Some s" by simp
    with wf show False by (auto simp: pool_wf_def dest: map_of_SomeD)
  qed
  have dl: "distinct (List.map fst live)" unfolding live_def using d by (rule distinct_map_filter)
  have "(sid, v) \<in> set (evict_over (ep_max e) live)"
    by (rule evict_over_keeps [OF ne _ dl in_live other]) (use wf in \<open>simp add: pool_wf_def\<close>)
  then have "sid \<in> fst ` set (evict_over (ep_max e) live)" by force
  moreover have "ep_sessions (pool_append t1 t2 sid ms e) = evict_over (ep_max e) live"
    by (simp add: pool_append_def evict_def live_def xs_def v_def)
  ultimately show ?thesis by (simp add: pool_has_iff map_of_eq_None_iff)
qed

lemma pool_read_same:
  assumes "pool_read t sid e = (ms, e')"
  shows "ms = pool_messages sid e" and "pool_messages i e' = pool_messages i e"
    and "pool_has i e' = pool_has i e"
  using assms
  by (auto simp: pool_read_def pool_messages_def pool_has_def update_conv' split: option.splits if_splits)

lemma pool_read_wf: "pool_wf e \<Longrightarrow> pool_read t sid e = (ms, e') \<Longrightarrow> pool_wf e'"
proof (cases "map_of (ep_sessions e) sid")
  case (Some s)
  assume wf: "pool_wf e" and "pool_read t sid e = (ms, e')"
  with Some have e': "e' = e\<lparr>ep_sessions := AList.update sid (s\<lparr>es_last := t\<rparr>) (ep_sessions e)\<rparr>"
    by (simp add: pool_read_def)
  have "sid \<in> set (List.map fst (ep_sessions e))" using Some by (auto dest: map_of_Some_dom)
  then have k: "List.map fst (ep_sessions e') = List.map fst (ep_sessions e)" by (simp add: e' update_keys)
  then have "length (ep_sessions e') = length (ep_sessions e)" by (metis length_map)
  moreover have "(\<forall>(i, s) \<in> set (ep_sessions e'). i \<noteq> '''') \<longleftrightarrow> (\<forall>(i, s) \<in> set (ep_sessions e). i \<noteq> '''')"
    using ball_map_eq [OF k, of "\<lambda>i. i \<noteq> ''''"] by (simp add: split_def)
  ultimately show ?thesis using wf k by (simp add: pool_wf_def) (simp add: e')
qed (simp add: pool_read_def)

section \<open>The transcript interface\<close>

text \<open>
  \<open>Transcript\<close> as its callers see it: an append that may fail, and a read. \<open>run_ops\<close> performs
  a sequence of both and collects what the reads returned; \<open>spec_ops\<close> is the same sequence on a
  plain list of messages. An implementation keeps the contract while nothing is forgotten, which
  is what \<open>kept\<close> says of one append.
\<close>

datatype 'm transcript_op = OpAppend "'m list" | OpRead

fun run_ops ::
  "('s \<Rightarrow> 'm list \<Rightarrow> 's option) \<Rightarrow> ('s \<Rightarrow> ('m list \<times> 's) option) \<Rightarrow> 'm transcript_op list \<Rightarrow> 's \<Rightarrow>
     ('m list list \<times> 's) option" where
  "run_ops app rd [] s = Some ([], s)"
| "run_ops app rd (OpAppend ms # ops) s =
     (case app s ms of None \<Rightarrow> None | Some s' \<Rightarrow> run_ops app rd ops s')"
| "run_ops app rd (OpRead # ops) s =
     (case rd s of None \<Rightarrow> None
      | Some (h, s') \<Rightarrow> (case run_ops app rd ops s' of None \<Rightarrow> None | Some (outs, t) \<Rightarrow> Some (h # outs, t)))"

fun kept_ops ::
  "('s \<Rightarrow> 'm list \<Rightarrow> 's option) \<Rightarrow> ('s \<Rightarrow> ('m list \<times> 's) option) \<Rightarrow> ('s \<Rightarrow> 'm list \<Rightarrow> 's \<Rightarrow> bool) \<Rightarrow>
     'm transcript_op list \<Rightarrow> 's \<Rightarrow> bool" where
  "kept_ops app rd kept [] s = True"
| "kept_ops app rd kept (OpAppend ms # ops) s =
     (case app s ms of None \<Rightarrow> True | Some s' \<Rightarrow> kept s ms s' \<and> kept_ops app rd kept ops s')"
| "kept_ops app rd kept (OpRead # ops) s =
     (case rd s of None \<Rightarrow> True | Some (_, s') \<Rightarrow> kept_ops app rd kept ops s')"

fun spec_ops :: "'m transcript_op list \<Rightarrow> 'm list \<Rightarrow> 'm list list \<times> 'm list" where
  "spec_ops [] h = ([], h)"
| "spec_ops (OpAppend ms # ops) h = spec_ops ops (h @ ms)"
| "spec_ops (OpRead # ops) h = (let (outs, h') = spec_ops ops h in (h # outs, h'))"

locale transcript_iface =
  fixes app :: "'s \<Rightarrow> 'm list \<Rightarrow> 's option"
    and rd :: "'s \<Rightarrow> ('m list \<times> 's) option"
    and hist :: "'s \<Rightarrow> 'm list option"
    and kept :: "'s \<Rightarrow> 'm list \<Rightarrow> 's \<Rightarrow> bool"
  assumes app_hist: "hist s = Some h \<Longrightarrow> app s ms = Some s' \<Longrightarrow> kept s ms s' \<Longrightarrow> hist s' = Some (h @ ms)"
    and rd_hist: "rd s = Some (h, s') \<Longrightarrow> hist s = Some h \<and> hist s' = Some h"
begin

lemma run_ops_spec:
  "hist s = Some h \<Longrightarrow> kept_ops app rd kept ops s \<Longrightarrow> run_ops app rd ops s = Some (outs, s') \<Longrightarrow>
     outs = fst (spec_ops ops h) \<and> hist s' = Some (snd (spec_ops ops h))"
proof (induction ops arbitrary: s h outs)
  case (Cons op ops)
  show ?case
  proof (cases op)
    case (OpAppend ms)
    with Cons.prems obtain s1 where s1: "app s ms = Some s1" "kept s ms s1" "kept_ops app rd kept ops s1"
        "run_ops app rd ops s1 = Some (outs, s')" by (auto split: option.splits)
    have "hist s1 = Some (h @ ms)" using Cons.prems(1) s1(1,2) by (rule app_hist)
    from Cons.IH [OF this s1(3,4)] OpAppend show ?thesis by simp
  next
    case OpRead
    with Cons.prems obtain g s1 outs1 where s1: "rd s = Some (g, s1)" "kept_ops app rd kept ops s1"
        "run_ops app rd ops s1 = Some (outs1, s')" and outs: "outs = g # outs1"
      by (auto split: option.splits)
    from rd_hist [OF s1(1)] Cons.prems(1) have g: "g = h" "hist s1 = Some h" by simp_all
    from Cons.IH [OF g(2) s1(2,3)] OpRead outs g show ?thesis by (simp add: split_def Let_def)
  qed
qed simp

end

text \<open>The agent's transcripts, in the interface's terms.\<close>

definition tr_app ::
  "('x, 'a) services_scheme \<Rightarrow> transcript \<Rightarrow> string \<Rightarrow> 'x world \<Rightarrow> message list \<Rightarrow> 'x world option" where
  "tr_app sv tr sid w ms = (case transcript_append sv tr sid ms w of (Inl _, _) \<Rightarrow> None | (Inr _, w') \<Rightarrow> Some w')"

definition tr_read ::
  "('x, 'a) services_scheme \<Rightarrow> transcript \<Rightarrow> string \<Rightarrow> 'x world \<Rightarrow> (message list \<times> 'x world) option" where
  "tr_read sv tr sid w = (case transcript_messages sv tr sid w of (Inl _, _) \<Rightarrow> None | (Inr h, w') \<Rightarrow> Some (h, w'))"

definition memory_history :: "string \<Rightarrow> 'x world \<Rightarrow> message list" where
  "memory_history sid w = (case wl_pool w of None \<Rightarrow> [] | Some e \<Rightarrow> pool_messages sid e)"

definition tr_hist ::
  "('x, 'a) services_scheme \<Rightarrow> transcript \<Rightarrow> string \<Rightarrow> 'x world \<Rightarrow> message list option" where
  "tr_hist sv tr sid w =
     (case tr of
        StoreTranscript \<Rightarrow> (case messages (sv_codec sv) sid (wl_db w) of Inl _ \<Rightarrow> None | Inr h \<Rightarrow> Some h)
      | DualTranscript _ \<Rightarrow> Some (memory_history sid w))"

definition tr_kept ::
  "('x, 'a) services_scheme \<Rightarrow> transcript \<Rightarrow> string \<Rightarrow> 'x world \<Rightarrow> message list \<Rightarrow> 'x world \<Rightarrow> bool" where
  "tr_kept sv tr sid w ms w' =
     (case tr of
        StoreTranscript \<Rightarrow> list_all (storable (sv_codec sv)) ms
      | DualTranscript _ \<Rightarrow>
          (case (wl_pool w, wl_pool w') of
             (Some e, Some e') \<Rightarrow> pool_wf e \<and> sid \<noteq> '''' \<and> pool_has sid e'
           | _ \<Rightarrow> False))"

lemma read_clock_simps [simp]:
  "wl_db (snd (read_clock sv w)) = wl_db w" "wl_pool (snd (read_clock sv w)) = wl_pool w"
  "wl_index (snd (read_clock sv w)) = wl_index w"
  by (simp_all add: read_clock_def split: prod.splits)

lemma read_clock_state:
  "read_clock sv w = (t, w') \<Longrightarrow> wl_db w' = wl_db w \<and> wl_pool w' = wl_pool w \<and> wl_index w' = wl_index w"
  using read_clock_simps [of sv w] by simp

lemma store_append_cases:
  assumes "store_append sv sid ms w = (res, w')"
  obtains now ids where "res = Inr ()" "append_messages (sv_codec sv) now sid ms (wl_db w) = (Inr ids, wl_db w')"
      "wl_pool w' = wl_pool w" "wl_index w' = wl_index w @ (if sv_indexer sv then [ids] else [])"
  | e where "res = Inl e" "wl_db w' = wl_db w" "wl_pool w' = wl_pool w" "wl_index w' = wl_index w"
proof -
  obtain now w1 where c: "read_clock sv w = (now, w1)" by (cases "read_clock sv w")
  obtain r db where a: "append_messages (sv_codec sv) now sid ms (wl_db w1) = (r, db)"
    by (cases "append_messages (sv_codec sv) now sid ms (wl_db w1)")
  note st = read_clock_state [OF c]
  show ?thesis
  proof (cases r)
    case (Inl e)
    with assms c a st append_messages_rejected [of "sv_codec sv" now sid ms "wl_db w1" e db] that(2)
    show ?thesis by (auto simp: store_append_def)
  next
    case (Inr ids)
    with assms c a st that(1) [of now ids] show ?thesis by (auto simp: store_append_def Let_def)
  qed
qed

lemma memory_append_cases:
  assumes "memory_append sv sid ms w = w'"
  obtains "w' = w" "wl_pool w = None \<or> ms = []"
  | e t1 t2 where "wl_pool w = Some e" "ms \<noteq> []" "wl_pool w' = Some (pool_append t1 t2 sid ms e)"
      "wl_db w' = wl_db w" "wl_index w' = wl_index w"
proof (cases "wl_pool w")
  case (Some e)
  obtain t1 w1 t2 w2 where c: "read_clock sv w = (t1, w1)" "read_clock sv w1 = (t2, w2)"
    by (meson surj_pair)
  show ?thesis
  proof (cases "ms = []")
    case False
    with assms Some c read_clock_state [OF c(1)] read_clock_state [OF c(2)] that(2) [of e t1 t2]
    show ?thesis by (auto simp: memory_append_def)
  qed (use assms Some that(1) in \<open>simp add: memory_append_def\<close>)
qed (use assms that(1) in \<open>simp add: memory_append_def\<close>)

lemma memory_append_db: "wl_db (memory_append sv sid ms w) = wl_db w"
  by (rule memory_append_cases [OF refl, of sv sid ms w]) simp_all

lemma memory_append_history:
  assumes "wl_pool w = Some e" "pool_wf e" "sid \<noteq> ''''" "memory_append sv sid ms w = w'"
    "wl_pool w' = Some e'" "pool_has sid e'"
  shows "memory_history sid w' = memory_history sid w @ ms"
  using assms(4)
proof (cases rule: memory_append_cases)
  case 1
  with assms show ?thesis by (auto simp: memory_append_def memory_history_def)
next
  case (2 e0 t1 t2)
  with assms pool_append_messages [of e sid t1 t2 ms] show ?thesis by (simp add: memory_history_def)
qed

lemma memory_read_same:
  assumes "memory_read sv sid w = (ms, w')"
  shows "ms = memory_history sid w" and "memory_history i w' = memory_history i w" and "wl_db w' = wl_db w"
proof -
  have "ms = memory_history sid w \<and> memory_history i w' = memory_history i w \<and> wl_db w' = wl_db w"
  proof (cases "wl_pool w")
    case (Some e)
    obtain t w1 where c: "(if pool_has sid e then read_clock sv w else (0, w)) = (t, w1)"
      by (cases "if pool_has sid e then read_clock sv w else (0, w)")
    then have st: "wl_db w1 = wl_db w" by (auto dest: read_clock_state split: if_splits)
    obtain h e' where r: "pool_read t sid e = (h, e')" by (cases "pool_read t sid e")
    with assms Some c have "ms = h" "w' = w1\<lparr>wl_pool := Some e'\<rparr>" by (auto simp: memory_read_def)
    with pool_read_same [OF r] st Some show ?thesis by (simp add: memory_history_def)
  qed (use assms in \<open>simp add: memory_read_def memory_history_def\<close>)
  then show "ms = memory_history sid w" "memory_history i w' = memory_history i w" "wl_db w' = wl_db w" by simp_all
qed

interpretation tr: transcript_iface "tr_app sv tr sid" "tr_read sv tr sid" "tr_hist sv tr sid" "tr_kept sv tr sid"
  for sv tr sid
proof (unfold_locales, goal_cases)
  case (1 w h ms w')
  show ?case
  proof (cases tr)
    case StoreTranscript
    with 1 have app: "store_append sv sid ms w = (Inr (), w')" and st: "\<forall>m \<in> set ms. storable (sv_codec sv) m"
      and h: "messages (sv_codec sv) sid (wl_db w) = Inr h"
      by (auto simp: tr_app_def transcript_append_def tr_kept_def tr_hist_def list_all_iff split: prod.splits sum.splits)
    from app show ?thesis
      by (rule store_append_cases) (use st h StoreTranscript append_messages_reads in \<open>auto simp: tr_hist_def\<close>)
  next
    case (DualTranscript persist)
    define w1 where "w1 = memory_append sv sid ms w"
    have pool: "wl_pool w' = wl_pool w1"
      using 1(2) DualTranscript
      by (auto simp: tr_app_def transcript_append_def w1_def [symmetric] Let_def
          elim: store_append_cases split: if_splits prod.splits sum.splits)
    from 1(3) DualTranscript pool obtain e e' where "wl_pool w = Some e" "wl_pool w1 = Some e'" "pool_wf e" "sid \<noteq> ''''" "pool_has sid e'"
      by (auto simp: tr_kept_def split: option.splits)
    with memory_append_history [of w e sid sv ms w1 e'] w1_def have "memory_history sid w1 = memory_history sid w @ ms"
      by simp
    with 1(1) DualTranscript pool show ?thesis by (simp add: tr_hist_def memory_history_def)
  qed
next
  case (2 w h w')
  show ?case
  proof (cases tr)
    case StoreTranscript
    with 2 show ?thesis by (auto simp: tr_read_def transcript_messages_def tr_hist_def split: sum.splits)
  next
    case (DualTranscript persist)
    with 2 have "memory_read sv sid w = (h, w')"
      by (auto simp: tr_read_def transcript_messages_def split: prod.splits)
    from memory_read_same(1,2) [OF this] DualTranscript show ?thesis by (simp add: tr_hist_def)
  qed
qed

section \<open>Switching the record off\<close>

lemma set_session_memory_result:
  assumes "set_session_memory now sid client rec recall db = (Inr (), db')"
  shows "\<forall>s \<in> set (db_sessions db'). owned sid client s \<longrightarrow> ss_record s = rec \<and> ss_recall s = recall"
    and "\<not> rec \<Longrightarrow> session_rows sid db' = []"
    and "\<exists>s \<in> set (db_sessions db'). owned sid client s"
    and "sid' \<noteq> sid \<Longrightarrow> session_rows sid' db' = session_rows sid' db"
    and "rec \<Longrightarrow> session_rows sid db' = session_rows sid db"
proof -
  have ex: "\<exists>s \<in> set (db_sessions db). owned sid client s"
    using assms by (auto simp: set_session_memory_def Let_def split: if_splits)
  define ss where "ss = update_rows (owned sid client)
      (\<lambda>s. s\<lparr>ss_record := rec, ss_recall := recall, ss_updated := now\<rparr>) (db_sessions db)"
  have db': "db_sessions db' = ss"
    "db_messages db' = (if rec then db_messages db else filter (\<lambda>r. mr_session r \<noteq> sid) (db_messages db))"
    using assms ex by (auto simp: set_session_memory_def Let_def ss_def update_sessions_def split: if_splits)
  show "\<forall>s \<in> set (db_sessions db'). owned sid client s \<longrightarrow> ss_record s = rec \<and> ss_recall s = recall"
  proof
    fix s assume "s \<in> set (db_sessions db')"
    then have "s \<in> (\<lambda>t. if owned sid client t
        then t\<lparr>ss_record := rec, ss_recall := recall, ss_updated := now\<rparr> else t) ` set (db_sessions db)"
      unfolding db' ss_def update_rows_def by simp
    then obtain t where "s = (if owned sid client t
        then t\<lparr>ss_record := rec, ss_recall := recall, ss_updated := now\<rparr> else t)" by (rule imageE)
    then show "owned sid client s \<longrightarrow> ss_record s = rec \<and> ss_recall s = recall"
      by (cases "owned sid client t") simp_all
  qed
  from ex obtain s where s: "s \<in> set (db_sessions db)" "owned sid client s" ..
  define s' where "s' = s\<lparr>ss_record := rec, ss_recall := recall, ss_updated := now\<rparr>"
  have "s' \<in> set ss" unfolding ss_def update_rows_def set_map by (rule image_eqI [OF _ s(1)]) (simp add: s'_def s(2))
  moreover have "owned sid client s'" using s(2) by (simp add: s'_def owned_def)
  ultimately show "\<exists>s \<in> set (db_sessions db'). owned sid client s" unfolding db' by blast
  show "\<not> rec \<Longrightarrow> session_rows sid db' = []" by (simp add: session_rows_def db' filter_empty_conv)
  have "filter (\<lambda>r. mr_session r = sid' \<and> mr_session r \<noteq> sid) (db_messages db) =
      filter (\<lambda>r. mr_session r = sid') (db_messages db)" if "sid' \<noteq> sid" using that by (metis (full_types))
  then show "sid' \<noteq> sid \<Longrightarrow> session_rows sid' db' = session_rows sid' db"
    by (simp add: session_rows_def db' conj_commute)
  show "rec \<Longrightarrow> session_rows sid db' = session_rows sid db" by (simp add: session_rows_def db')
qed

lemma set_memory_cases:
  assumes "set_memory sv sess rec recall w = (Inr (), w')"
  obtains now where "set_session_memory now (ss_id sess) (ss_client sess) rec recall (wl_db w) = (Inr (), wl_db w')"
    "wl_pool w' = wl_pool w" "wl_pool w = None \<or> rec \<or> \<not> ss_record sess"
  | now e h t1 t2 where
    "set_session_memory now (ss_id sess) (ss_client sess) rec recall (wl_db w) = (Inr (), wl_db w')"
    "wl_pool w = Some e" "messages (sv_codec sv) (ss_id sess) (wl_db w) = Inr h"
    "wl_pool w' = Some (pool_seed t1 t2 (ss_id sess) h e)" "\<not> rec" "ss_record sess"
proof -
  define finish where "finish = (\<lambda>w. let (now, w1) = read_clock sv w;
      (res, db) = set_session_memory now (ss_id sess) (ss_client sess) rec recall (wl_db w1)
    in (res, w1\<lparr>wl_db := db\<rparr>))"
  have fin: "\<exists>now. set_session_memory now (ss_id sess) (ss_client sess) rec recall (wl_db v) = (Inr (), wl_db w') \<and>
      wl_pool w' = wl_pool v" if "finish v = (Inr (), w')" for v
  proof -
    obtain now v1 where c: "read_clock sv v = (now, v1)" by (cases "read_clock sv v")
    with that read_clock_state [OF c] show ?thesis by (auto simp: finish_def split: prod.splits)
  qed
  show ?thesis
  proof (cases "wl_pool w = None \<or> rec \<or> \<not> ss_record sess")
    case True
    then have "finish w = (Inr (), w')"
      using assms unfolding set_memory_def finish_def [symmetric] by (auto split: option.splits)
    from fin [OF this] True that(1) show ?thesis by blast
  next
    case False
    then obtain e where e: "wl_pool w = Some e" "\<not> rec" "ss_record sess" by auto
    obtain t1 w1 t2 w2 where c: "read_clock sv w = (t1, w1)" "read_clock sv w1 = (t2, w2)"
      by (meson surj_pair)
    from assms e c obtain h where h: "messages (sv_codec sv) (ss_id sess) (wl_db w) = Inr h"
      and f: "finish (w2\<lparr>wl_pool := Some (pool_seed t1 t2 (ss_id sess) h e)\<rparr>) = (Inr (), w')"
      unfolding set_memory_def finish_def [symmetric] by (auto split: sum.splits)
    have "wl_db w2 = wl_db w" using read_clock_state [OF c(1)] read_clock_state [OF c(2)] by simp
    with fin [OF f] e h that(2) show ?thesis by auto
  qed
qed

lemma set_memory_result:
  assumes "set_memory sv sess rec recall w = (Inr (), w')"
  shows "\<exists>now. set_session_memory now (ss_id sess) (ss_client sess) rec recall (wl_db w) = (Inr (), wl_db w')"
  using assms by (rule set_memory_cases) blast+

lemma set_memory_history:
  assumes "set_memory sv sess False recall w = (Inr (), w')" "ss_record sess" "ss_id sess \<noteq> ''''"
    "wl_pool w = Some e" "pool_wf e" "wl_pool w' = Some e'" "pool_has (ss_id sess) e'"
  shows "messages (sv_codec sv) (ss_id sess) (wl_db w) = Inr (memory_history (ss_id sess) w')"
  using assms(1)
proof (cases rule: set_memory_cases)
  case 1
  with assms show ?thesis by simp
next
  case (2 now e0 h t1 t2)
  then have "pool_messages (ss_id sess) (pool_seed t1 t2 (ss_id sess) h e) = h"
    using assms by (intro pool_seed_messages) simp_all
  with 2 assms show ?thesis by (simp add: memory_history_def)
qed

section \<open>Properties\<close>

text \<open>C14: Whatever transcript serves a conversation, a sequence of appends and reads behaves like the same
  sequence on one list of messages, as long as no append was forgotten (evicted, or not storable).\<close>

theorem transcript_refines_list:
  assumes "tr_hist sv tr sid w = Some h"
    and "kept_ops (tr_app sv tr sid) (tr_read sv tr sid) (tr_kept sv tr sid) ops w"
    and "run_ops (tr_app sv tr sid) (tr_read sv tr sid) ops w = Some (outs, w')"
  shows "outs = fst (spec_ops ops h) \<and> tr_hist sv tr sid w' = Some (snd (spec_ops ops h))"
  using assms by (rule tr.run_ops_spec)

definition demo_services :: "int services" where
  "demo_services = \<lparr>sv_codec = framed_codec, sv_clock = \<lambda>x. (x, x + 1), sv_indexer = True\<rparr>"

definition pool_world :: "store_db \<Rightarrow> int world" where
  "pool_world db = \<lparr>wl_db = db, wl_pool = Some (new_ephemeral 0 0), wl_index = [], wl_samples = [], wl_ext = 1\<rparr>"

lemma transcript_refines_list_witness:
  "\<exists>w'. run_ops (tr_app demo_services (DualTranscript False) ''s1'') (tr_read demo_services (DualTranscript False) ''s1'')
      [OpAppend [user_message ''a''], OpAppend [user_message ''b''], OpRead] (pool_world demo_store) =
    Some ([[user_message ''a'', user_message ''b'']], w')"
proof -
  define ops where "ops = [OpAppend [user_message ''a''], OpAppend [user_message ''b''], OpRead]"
  define w where "w = pool_world demo_store"
  note defs = w_def pool_world_def tr_app_def tr_read_def transcript_append_def transcript_messages_def
    memory_append_def memory_read_def read_clock_def demo_services_def new_ephemeral_def pool_append_def
    evict_def evict_over.simps pool_messages_def pool_has_def pool_read_def ops_def
  have hist: "tr_hist demo_services (DualTranscript False) ''s1'' w = Some []"
    by (simp add: defs tr_hist_def memory_history_def)
  have kept: "kept_ops (tr_app demo_services (DualTranscript False) ''s1'') (tr_read demo_services (DualTranscript False) ''s1'')
      (tr_kept demo_services (DualTranscript False) ''s1'') ops w"
    by (simp add: defs tr_kept_def pool_wf_def)
  have "\<exists>outs w'. run_ops (tr_app demo_services (DualTranscript False) ''s1'')
      (tr_read demo_services (DualTranscript False) ''s1'') ops w = Some (outs, w')"
    by (simp add: defs)
  then obtain outs w' where run: "run_ops (tr_app demo_services (DualTranscript False) ''s1'')
      (tr_read demo_services (DualTranscript False) ''s1'') ops w = Some (outs, w')" by blast
  from transcript_refines_list [OF hist kept run] run show ?thesis
    by (simp add: ops_def w_def)
qed

text \<open>C18: Taking a conversation off the record leaves none of its messages in the store and both switches
  as asked, and what was stored is what the pool then holds.\<close>

theorem off_the_record_erases:
  assumes "set_memory sv sess False recall w = (Inr (), w')"
  shows "session_rows (ss_id sess) (wl_db w') = [] \<and>
     list_all (\<lambda>s. owned (ss_id sess) (ss_client sess) s = False \<or> ss_record s = False \<and> ss_recall s = recall)
       (db_sessions (wl_db w')) \<and>
     (case (wl_pool w, wl_pool w') of
        (Some e, Some e') \<Rightarrow>
          (if ss_record sess \<and> pool_wf e \<and> ss_id sess \<noteq> '''' \<and> pool_has (ss_id sess) e'
           then messages (sv_codec sv) (ss_id sess) (wl_db w) = Inr (memory_history (ss_id sess) w') else True)
      | _ \<Rightarrow> True)"
proof -
  from set_memory_result [OF assms] obtain now where
    m: "set_session_memory now (ss_id sess) (ss_client sess) False recall (wl_db w) = (Inr (), wl_db w')" ..
  have "list_all (\<lambda>s. owned (ss_id sess) (ss_client sess) s = False \<or> ss_record s = False \<and> ss_recall s = recall)
      (db_sessions (wl_db w'))"
    using set_session_memory_result(1) [OF m] by (auto simp: list_all_iff)
  with set_session_memory_result(2) [OF m] set_memory_history [OF assms] show ?thesis
    by (auto split: option.splits)
qed

definition recorded_store :: store_db where
  "recorded_store = snd (append_messages framed_codec 3 ''s1'' [user_message ''on the record''] demo_store)"

definition demo_row :: session where "demo_row = hd (db_sessions demo_store)"

lemma demo_row_simps [simp]:
  "ss_id demo_row = ''s1''" "ss_client demo_row = 1" "ss_record demo_row = True"
  by (simp_all add: demo_row_def demo_store_def)

lemma recorded_store_messages: "messages framed_codec ''s1'' recorded_store = Inr [user_message ''on the record'']"
proof -
  have "messages framed_codec ''s1'' demo_store = Inr []"
    by (simp add: messages_def session_rows_def demo_store_def empty_store_def)
  moreover have "\<exists>ids db. append_messages framed_codec 3 ''s1'' [user_message ''on the record''] demo_store = (Inr ids, db)"
    by (rule append_messages_succeeds) (auto simp: demo_store_def framed_codec_storable)
  ultimately show ?thesis
    using append_messages_reads [of framed_codec 3 "''s1''" "[user_message ''on the record'']" demo_store]
    by (auto simp: recorded_store_def framed_codec_storable)
qed

lemma recorded_store_session: "map (\<lambda>s. (ss_id s, ss_client s)) (db_sessions recorded_store) = [(''s1'', 1)]"
  by (simp add: recorded_store_def append_messages_def demo_store_def empty_store_def max_seq_def
      encode_message_def user_message_def blank_message_def update_sessions_def update_rows_def)

lemma demo_set_memory:
  "\<exists>w'. set_memory demo_services demo_row rec recall (pool_world recorded_store) = (Inr (), w') \<and>
     (rec \<or> (\<exists>e'. wl_pool w' = Some e' \<and> pool_has ''s1'' e'))"
proof -
  have own: "\<exists>s \<in> set (db_sessions recorded_store). owned ''s1'' 1 s"
  proof -
    have "(''s1'', 1) \<in> set (map (\<lambda>s. (ss_id s, ss_client s)) (db_sessions recorded_store))"
      unfolding recorded_store_session by simp
    then show ?thesis by (auto simp: owned_def)
  qed
  show ?thesis
    using own
    by (simp add: set_memory_def pool_world_def demo_services_def read_clock_def recorded_store_messages
        set_session_memory_def Let_def new_ephemeral_def pool_seed_def evict_def evict_over.simps pool_has_def)
      auto
qed

lemma off_the_record_erases_witness:
  "\<exists>w'. set_memory demo_services demo_row False True (pool_world recorded_store) = (Inr (), w') \<and>
     session_rows ''s1'' (wl_db w') = []"
proof -
  obtain w' where w': "set_memory demo_services demo_row False True (pool_world recorded_store) = (Inr (), w')"
    using demo_set_memory [of False True] by blast
  with off_the_record_erases [OF w'] show ?thesis by simp
qed



text \<open>C29: The pool never holds more than its limit, and appending to one conversation leaves every other
  one it still holds exactly as it was: a conversation is forgotten whole or not at all.\<close>

theorem pool_bounded_and_whole:
  assumes "pool_wf e" "sid \<noteq> ''''"
  shows "pool_wf (pool_append t1 t2 sid ms e) \<and>
    int (length (ep_sessions (pool_append t1 t2 sid ms e))) \<le> ep_max e \<and>
    (pool_has i (pool_append t1 t2 sid ms e) = False \<or>
     pool_messages i (pool_append t1 t2 sid ms e) = pool_messages i e @ (if i = sid then ms else []))"
proof -
  have wf: "pool_wf (pool_append t1 t2 sid ms e)" using assms by (rule pool_append_wf)
  moreover have "ep_max (pool_append t1 t2 sid ms e) = ep_max e" by (simp add: pool_append_def evict_def)
  ultimately show ?thesis
    using pool_append_messages [OF assms] pool_append_other [OF assms] by (auto simp: pool_wf_def)
qed

lemma pool_bounded_and_whole_witness:
  "length (ep_sessions (pool_append 1 2 ''a'' [user_message ''x''] (new_ephemeral 1 0))) \<le> 1"
  using pool_bounded_and_whole [OF new_ephemeral_wf [of 1 0], of "''a''" 1 2 "[user_message ''x'']"]
  by (simp add: new_ephemeral_def)

end
