(* ===== verification/AgentLoop.thy ===== *)
theory AgentLoop
  imports Transcript
begin

text \<open>
  The assistant's turn loop (\<open>internal/agent/agent.go\<close>, and \<open>modelLine\<close> of \<open>prompt.go\<close>).
  What the loop only calls is a parameter: the providers (through the router), the tool
  handlers, the profile scoper and the recaller. A handler reads the server's state and changes
  the outside world; it does not write the conversation tables itself. The loop is bounded by
  \<open>maxIterations\<close>, so it is primitive recursion on the iterations left.
\<close>

section \<open>Messages\<close>

definition stamp :: "message list \<Rightarrow> string \<Rightarrow> string \<Rightarrow> int \<Rightarrow> message list" where
  "stamp ms backend model tokens =
     List.map (\<lambda>m. m\<lparr>msg_backend := backend, msg_model := model, msg_token_count := tokens\<rparr>) ms"

definition last_user_text :: "message list \<Rightarrow> string" where
  "last_user_text ms =
     (case filter (\<lambda>m. msg_role m = RoleUser \<and> trim_space (msg_content m) \<noteq> '''') (rev ms) of
        [] \<Rightarrow> '''' | m # _ \<Rightarrow> msg_content m)"

definition newlines :: string where "newlines = [CHR 0x0A, CHR 0x0A]"

text \<open>The block goes in front of the newest user message: the first one from the end.\<close>

fun prefix_first_user :: "string \<Rightarrow> message list \<Rightarrow> message list" where
  "prefix_first_user block [] = []"
| "prefix_first_user block (m # ms) =
     (if msg_role m \<noteq> RoleUser then m # prefix_first_user block ms
      else m\<lparr>msg_content := block @ newlines @ msg_content m\<rparr> # ms)"

definition with_prior_context :: "message list \<Rightarrow> string \<Rightarrow> message list" where
  "with_prior_context history block =
     (if block = '''' then history else rev (prefix_first_user block (rev history)))"

text \<open>\<open>fmt\<close>'s \<open>%q\<close>: bytes below 0x20, 0x7F, the quote and the backslash are escaped; a byte above
  0x7F is kept, which is what \<open>%q\<close> does with printable UTF-8.\<close>

definition hex_digit :: "nat \<Rightarrow> char" where
  "hex_digit n = (if n < 10 then char_of (48 + n) else char_of (87 + n))"

definition quote_char :: "char \<Rightarrow> string" where
  "quote_char c = (let n = (of_char c :: nat) in
     if n = 34 then [CHR 0x5C, CHR 0x22] else if n = 92 then [CHR 0x5C, CHR 0x5C]
     else if n = 7 then [CHR 0x5C, CHR ''a''] else if n = 8 then [CHR 0x5C, CHR ''b'']
     else if n = 9 then [CHR 0x5C, CHR ''t''] else if n = 10 then [CHR 0x5C, CHR ''n'']
     else if n = 11 then [CHR 0x5C, CHR ''v''] else if n = 12 then [CHR 0x5C, CHR ''f'']
     else if n = 13 then [CHR 0x5C, CHR ''r'']
     else if n < 32 \<or> n = 127 then [CHR 0x5C, CHR ''x'', hex_digit (n div 16), hex_digit (n mod 16)]
     else [c])"

definition go_quote :: "string \<Rightarrow> string" where
  "go_quote s = [CHR 0x22] @ concat (List.map quote_char s) @ [CHR 0x22]"

definition title :: "string \<Rightarrow> string" where
  "title text =
     (let t = trim_space (List.map (\<lambda>c. if c = CHR 0x0A then CHR '' '' else c) text)
      in if length t \<le> 60 then t else take 60 t @ ''...'')"

definition model_line :: "string \<Rightarrow> string \<Rightarrow> string" where
  "model_line backend model =
     (let served = (if backend \<noteq> '''' \<and> model \<noteq> ''''
                      then Some (''the '' @ backend @ '' backend, running '' @ model)
                    else if backend \<noteq> '''' then Some (''the '' @ backend @ '' backend'')
                    else if model \<noteq> '''' then Some model else None)
      in case served of
           None \<Rightarrow> ''''
         | Some s \<Rightarrow> ''This conversation is being served by '' @ s @ ''. That is the answer when the '' @
             ''operator asks what they are talking to: give it as it stands, and do not name a vendor, '' @
             ''a product or a version the server did not.'')"

section \<open>The agent\<close>

type_synonym 'x handler = "'x world \<Rightarrow> string \<Rightarrow> (string + string) \<times> 'x"

record 'x scoper =
  sc_scope :: "'x world \<Rightarrow> nat \<Rightarrow> string \<Rightarrow> 'x handler registry \<Rightarrow> string + (string \<times> 'x handler registry)"
  sc_web :: "'x handler registry \<Rightarrow> string + (bool \<times> string \<times> 'x handler registry)"

record 'x recaller =
  rc_recall :: "'x world \<Rightarrow> session \<Rightarrow> string \<Rightarrow> string \<times> 'x"
  rc_framing :: string

record 'x agent = "'x services" +
  ag_env :: "'x env"
  ag_tools :: "'x handler registry"
  ag_max_iterations :: int
  ag_system :: string
  ag_plain :: string
  ag_plain_web :: string
  ag_today :: "'x \<Rightarrow> string"
  ag_scope :: "'x scoper option"
  ag_recaller :: "'x recaller option"

datatype status = StatusUnset | StatusComplete | StatusAwaitingClient

record pending_call =
  pc_call :: tool_call
  pc_risk :: risk
  pc_description :: string

record turn =
  tn_session :: string
  tn_status :: status
  tn_reply :: string
  tn_pending :: "pending_call list"
  tn_usage :: usage
  tn_backend :: string
  tn_model :: string
  tn_fell_back_from :: string
  tn_fallback_reason :: string

datatype agent_error =
    AgStore store_error
  | AgScope string
  | AgClientTool string reg_error
  | AgCompletion complete_error
  | AgRepeated string nat
  | AgTooManyIterations string

definition repeated_tool_failure_limit :: nat where "repeated_tool_failure_limit = 3"

text \<open>\<open>resolve\<close>: the names a session's pin stands for now.\<close>

definition resolve :: "'x agent \<Rightarrow> session \<Rightarrow> 'x world \<Rightarrow> string \<times> string" where
  "resolve ag sess w =
     (case lookup_backend (env_router (ag_env ag) (wl_ext w)) (ss_backend sess) of
        None \<Rightarrow> (ss_backend sess, ss_model sess)
      | Some b \<Rightarrow> (if ss_backend sess = '''' then be_name b else ss_backend sess,
                   if ss_model sess = '''' then be_model b else ss_model sess))"

definition registry_for ::
  "'x agent \<Rightarrow> session \<Rightarrow> tool_def list \<Rightarrow> 'x world \<Rightarrow> agent_error + 'x handler registry \<times> string" where
  "registry_for ag sess client_tools w =
     (if \<not> ss_tools sess then
        (if \<not> ss_web sess then Inr (new_registry, '''')
         else case ag_scope ag of
           None \<Rightarrow> Inr (new_registry, '''')
         | Some sc \<Rightarrow>
             (case sc_web sc new_registry of
                Inl e \<Rightarrow> Inl (AgScope e)
              | Inr (ok, prompt, reg) \<Rightarrow> if \<not> ok then Inr (new_registry, '''') else Inr (reg, prompt)))
      else
        (case (case ag_scope ag of
                 None \<Rightarrow> Inr ('''', clone (ag_tools ag))
               | Some sc \<Rightarrow> (case sc_scope sc w (ss_client sess) (ss_agent sess) (clone (ag_tools ag)) of
                     Inl e \<Rightarrow> Inl (AgScope e) | Inr pr \<Rightarrow> Inr pr)) of
           Inl e \<Rightarrow> Inl e
         | Inr (prompt, reg) \<Rightarrow>
             (case register_clients reg client_tools of
                Inl (n, e) \<Rightarrow> Inl (AgClientTool n e)
              | Inr reg' \<Rightarrow> Inr (reg', prompt))))"

text \<open>The outside world after a call: the server's own state is where it was.\<close>

definition with_ext :: "'x world \<Rightarrow> 'x \<Rightarrow> 'x world" where
  "with_ext w x = w\<lparr>wl_ext := x\<rparr>"

definition run_server_tool ::
  "'x agent \<Rightarrow> 'x handler registry \<Rightarrow> session \<Rightarrow> tool_call \<Rightarrow> string \<Rightarrow> 'x world \<Rightarrow> tool_result \<times> 'x world" where
  "run_server_tool ag reg sess call audit_id w =
     (case reg_handler reg (tc_name call) of
        None \<Rightarrow> (errorf (tc_id call) (''tool '' @ go_quote (tc_name call) @ '' has no server-side handler''), w)
      | Some h \<Rightarrow>
          let (out, x) = h w (tc_input call);
              res = (case out of
                       Inl err \<Rightarrow> errorf (tc_id call) (''tool '' @ go_quote (tc_name call) @ '' failed: '' @ err)
                     | Inr content \<Rightarrow> \<lparr>tr_call_id = tc_id call, tr_content = content, tr_is_error = False\<rparr>);
              (now, w1) = read_clock ag (with_ext w x);
              entry = \<lparr>au_id = 0, au_session = ss_id sess, au_call_id = audit_id, au_tool = tc_name call,
                       au_side = SideServer,
                       au_risk = (case reg_definition reg (tc_name call) of None \<Rightarrow> RiskOther '''' | Some d \<Rightarrow> td_risk d),
                       au_input = tc_input call, au_decision = ''auto'', au_outcome = tr_content res,
                       au_is_error = tr_is_error res, au_created = 0\<rparr>
          in (res, w1\<lparr>wl_db := snd (record_tool now entry (wl_db w1))\<rparr>))"

definition describe :: "'x handler registry \<Rightarrow> tool_call list \<Rightarrow> pending_call list" where
  "describe reg calls =
     List.map (\<lambda>c. case reg_definition reg (tc_name c) of
                None \<Rightarrow> \<lparr>pc_call = c, pc_risk = RiskOther '''', pc_description = ''''\<rparr>
              | Some d \<Rightarrow> \<lparr>pc_call = c, pc_risk = td_risk d, pc_description = td_description d\<rparr>) calls"

fun partition_calls ::
  "'x handler registry \<Rightarrow> tool_call list \<Rightarrow> tool_call list \<times> tool_call list \<times> tool_call list" where
  "partition_calls reg [] = ([], [], [])"
| "partition_calls reg (c # cs) =
     (let (server, client, unknown) = partition_calls reg cs in
      case reg_definition reg (tc_name c) of
        None \<Rightarrow> (server, client, c # unknown)
      | Some d \<Rightarrow> if td_side d = SideClient then (server, c # client, unknown)
                  else (c # server, client, unknown))"

definition tool_reply :: "tool_result \<Rightarrow> string \<Rightarrow> string \<Rightarrow> message list" where
  "tool_reply res backend model = stamp [tool_message res] backend model 0"

definition unknown_result :: "tool_call \<Rightarrow> tool_result" where
  "unknown_result call =
     errorf (tc_id call) (''unknown tool '' @ go_quote (tc_name call) @ ''; use one of the tools provided'')"

text \<open>The loop over calls to names the registry does not have.\<close>

fun answer_unknown ::
  "'x agent \<Rightarrow> transcript \<Rightarrow> session \<Rightarrow> string \<Rightarrow> string \<Rightarrow> tool_call list \<Rightarrow> 'x world \<Rightarrow>
     (agent_error + unit) \<times> 'x world" where
  "answer_unknown ag tr sess backend model [] w = (Inr (), w)"
| "answer_unknown ag tr sess backend model (c # cs) w =
     (case transcript_append ag tr (ss_id sess) (tool_reply (unknown_result c) backend model) w of
        (Inl e, w1) \<Rightarrow> (Inl (AgStore e), w1)
      | (Inr _, w1) \<Rightarrow> answer_unknown ag tr sess backend model cs w1)"

text \<open>The loop over server calls, with the last failure and how often it has repeated.\<close>

fun run_server_calls ::
  "'x agent \<Rightarrow> transcript \<Rightarrow> session \<Rightarrow> 'x handler registry \<Rightarrow> string \<Rightarrow> string \<Rightarrow> tool_call list \<Rightarrow>
     string \<times> nat \<Rightarrow> 'x world \<Rightarrow> (agent_error + string \<times> nat) \<times> 'x world" where
  "run_server_calls ag tr sess reg backend model [] fail w = (Inr fail, w)"
| "run_server_calls ag tr sess reg backend model (c # cs) fail w =
     (let (res, w1) = run_server_tool ag reg sess c (tc_id c) w in
      case transcript_append ag tr (ss_id sess) (tool_reply res backend model) w1 of
        (Inl e, w2) \<Rightarrow> (Inl (AgStore e), w2)
      | (Inr _, w2) \<Rightarrow>
          if \<not> tr_is_error res then run_server_calls ag tr sess reg backend model cs ('''', 0) w2
          else
            let key = tc_name c @ '': '' @ tr_content res
            in if key = fst fail
               then (if repeated_tool_failure_limit \<le> snd fail + 1
                     then (Inl (AgRepeated key (snd fail + 1)), w2)
                     else run_server_calls ag tr sess reg backend model cs (fst fail, snd fail + 1) w2)
               else run_server_calls ag tr sess reg backend model cs (key, 1) w2)"

definition add_usage :: "usage \<Rightarrow> usage \<Rightarrow> usage" where
  "add_usage a b = \<lparr>us_prompt = add64 (us_prompt a) (us_prompt b),
     us_completion = add64 (us_completion a) (us_completion b), us_total = add64 (us_total a) (us_total b)\<rparr>"

text \<open>What one completion adds to the turn being built.\<close>

definition served :: "result \<Rightarrow> turn \<Rightarrow> turn" where
  "served res t =
     (let t1 = t\<lparr>tn_backend := rs_backend res, tn_model := rs_model res\<rparr>;
          t2 = (if rs_fell_back_from res \<noteq> ''''
                then t1\<lparr>tn_fell_back_from := rs_fell_back_from res, tn_fallback_reason := rs_fallback_reason res\<rparr>
                else t1)
      in t2\<lparr>tn_usage := add_usage (tn_usage t2) (rp_usage (rs_response res))\<rparr>)"

definition assistant_message :: "result \<Rightarrow> message" where
  "assistant_message res =
     (rp_message (rs_response res))\<lparr>msg_backend := rs_backend res, msg_model := rs_model res,
        msg_token_count := us_completion (rp_usage (rs_response res))\<rparr>"

definition call_model ::
  "'x agent \<Rightarrow> session \<Rightarrow> string \<Rightarrow> tool_def list \<Rightarrow> message list \<Rightarrow> 'x world \<Rightarrow>
     (complete_error + result) \<times> 'x world" where
  "call_model ag sess system defs history w =
     (let (out, samples, x) = complete (ag_env ag) (ss_backend sess)
            \<lparr>rq_system = system, rq_messages = history, rq_tools = defs, rq_model = ss_model sess\<rparr> (wl_ext w)
      in (out, w\<lparr>wl_ext := x, wl_samples := wl_samples w @ samples\<rparr>))"

text \<open>The body of \<open>Advance\<close>'s loop, \<open>n\<close> iterations left.\<close>

fun advance_loop ::
  "nat \<Rightarrow> 'x agent \<Rightarrow> transcript \<Rightarrow> session \<Rightarrow> 'x handler registry \<Rightarrow> string \<Rightarrow> string \<Rightarrow> turn \<Rightarrow>
     string \<times> nat \<Rightarrow> 'x world \<Rightarrow> (agent_error + turn) \<times> 'x world" where
  "advance_loop 0 ag tr sess reg system prior turn fail w = (Inl (AgTooManyIterations (fst fail)), w)"
| "advance_loop (Suc n) ag tr sess reg system prior turn fail w =
     (case transcript_messages ag tr (ss_id sess) w of
        (Inl e, w1) \<Rightarrow> (Inl (AgStore e), w1)
      | (Inr history, w1) \<Rightarrow>
          (case call_model ag sess system (definitions reg) (with_prior_context history prior) w1 of
             (Inl e, w2) \<Rightarrow> (Inl (AgCompletion e), w2)
           | (Inr res, w2) \<Rightarrow>
               let turn1 = served res turn; msg = assistant_message res in
               (case transcript_append ag tr (ss_id sess) [msg] w2 of
                  (Inl e, w3) \<Rightarrow> (Inl (AgStore e), w3)
                | (Inr _, w3) \<Rightarrow>
                    if msg_tool_calls msg = []
                    then (Inr (turn1\<lparr>tn_status := StatusComplete, tn_reply := msg_content msg\<rparr>), w3)
                    else
                      let (server, client, unknown) = partition_calls reg (msg_tool_calls msg) in
                      (case answer_unknown ag tr sess (tn_backend turn1) (tn_model turn1) unknown w3 of
                         (Inl e, w4) \<Rightarrow> (Inl e, w4)
                       | (Inr _, w4) \<Rightarrow>
                           (case run_server_calls ag tr sess reg (tn_backend turn1) (tn_model turn1) server fail w4 of
                              (Inl e, w5) \<Rightarrow> (Inl e, w5)
                            | (Inr fail', w5) \<Rightarrow>
                                if client \<noteq> []
                                then (Inr (turn1\<lparr>tn_status := StatusAwaitingClient, tn_reply := msg_content msg,
                                                tn_pending := describe reg client\<rparr>), w5)
                                else advance_loop n ag tr sess reg system prior turn1 fail' w5)))))"

definition system_prompt ::
  "'x agent \<Rightarrow> session \<Rightarrow> tool_def list \<Rightarrow> string \<Rightarrow> string \<times> string \<Rightarrow> 'x world \<Rightarrow> string" where
  "system_prompt ag sess defs extra nm w =
     (let line = model_line (fst nm) (snd nm);
          base = (if \<not> ss_tools sess then (if defs \<noteq> [] then ag_plain_web ag else ag_plain ag)
                  else if line \<noteq> '''' then ag_system ag @ newlines @ line else ag_system ag);
          dated = base @ newlines @ ag_today ag (wl_ext w)
      in if extra \<noteq> '''' then dated @ newlines @ extra else dated)"

definition prior_context ::
  "'x agent \<Rightarrow> session \<Rightarrow> message list \<Rightarrow> 'x world \<Rightarrow> string \<times> 'x world" where
  "prior_context ag sess incoming w =
     (case ag_recaller ag of
        None \<Rightarrow> ('''', w)
      | Some rc \<Rightarrow>
          let query = last_user_text incoming in
          if ss_recall sess \<and> query \<noteq> ''''
          then (let (block, x) = rc_recall rc w sess query in (block, with_ext w x))
          else ('''', w))"

definition empty_turn :: "session \<Rightarrow> turn" where
  "empty_turn sess = \<lparr>tn_session = ss_id sess, tn_status = StatusUnset, tn_reply = '''', tn_pending = [],
     tn_usage = \<lparr>us_prompt = 0, us_completion = 0, us_total = 0\<rparr>, tn_backend = '''', tn_model = '''',
     tn_fell_back_from = '''', tn_fallback_reason = ''''\<rparr>"

definition advance ::
  "'x agent \<Rightarrow> session \<Rightarrow> tool_def list \<Rightarrow> message list \<Rightarrow> 'x world \<Rightarrow> (agent_error + turn) \<times> 'x world" where
  "advance ag sess client_tools incoming w =
     (let nm = resolve ag sess w;
          tr = transcript_for sess w
      in case transcript_append ag tr (ss_id sess) (stamp incoming (fst nm) (snd nm) 0) w of
           (Inl e, w1) \<Rightarrow> (Inl (AgStore e), w1)
         | (Inr _, w1) \<Rightarrow>
             (case registry_for ag sess client_tools w1 of
                Inl e \<Rightarrow> (Inl e, w1)
              | Inr (reg, extra) \<Rightarrow>
                  let system0 = system_prompt ag sess (definitions reg) extra nm w1;
                      (prior, w2) = prior_context ag sess incoming w1;
                      system = (if prior = '''' then system0
                                else system0 @ newlines @ (case ag_recaller ag of None \<Rightarrow> '''' | Some rc \<Rightarrow> rc_framing rc))
                  in advance_loop (nat (ag_max_iterations ag)) ag tr sess reg system prior (empty_turn sess) ('''', 0) w2))"

section \<open>The shape of an iteration and of a turn\<close>

lemma advance_loop_Suc_cases:
  assumes "advance_loop (Suc n) ag tr sess reg system prior turn fail w = (out, w')"
  obtains (read_failed) e where "transcript_messages ag tr (ss_id sess) w = (Inl e, w')" "out = Inl (AgStore e)"
  | (model_failed) h w1 e where "transcript_messages ag tr (ss_id sess) w = (Inr h, w1)"
      "call_model ag sess system (definitions reg) (with_prior_context h prior) w1 = (Inl e, w')"
      "out = Inl (AgCompletion e)"
  | (append_failed) h w1 res w2 e where "transcript_messages ag tr (ss_id sess) w = (Inr h, w1)"
      "call_model ag sess system (definitions reg) (with_prior_context h prior) w1 = (Inr res, w2)"
      "transcript_append ag tr (ss_id sess) [assistant_message res] w2 = (Inl e, w')" "out = Inl (AgStore e)"
  | (complete) h w1 res w2 where "transcript_messages ag tr (ss_id sess) w = (Inr h, w1)"
      "call_model ag sess system (definitions reg) (with_prior_context h prior) w1 = (Inr res, w2)"
      "transcript_append ag tr (ss_id sess) [assistant_message res] w2 = (Inr (), w')"
      "msg_tool_calls (assistant_message res) = []"
      "out = Inr ((served res turn)\<lparr>tn_status := StatusComplete, tn_reply := msg_content (assistant_message res)\<rparr>)"
  | (unknown_failed) h w1 res w2 w3 server client unknown e where
      "transcript_messages ag tr (ss_id sess) w = (Inr h, w1)"
      "call_model ag sess system (definitions reg) (with_prior_context h prior) w1 = (Inr res, w2)"
      "transcript_append ag tr (ss_id sess) [assistant_message res] w2 = (Inr (), w3)"
      "partition_calls reg (msg_tool_calls (assistant_message res)) = (server, client, unknown)"
      "answer_unknown ag tr sess (rs_backend res) (rs_model res) unknown w3 = (Inl e, w')" "out = Inl e"
  | (server_failed) h w1 res w2 w3 server client unknown w4 e where
      "transcript_messages ag tr (ss_id sess) w = (Inr h, w1)"
      "call_model ag sess system (definitions reg) (with_prior_context h prior) w1 = (Inr res, w2)"
      "transcript_append ag tr (ss_id sess) [assistant_message res] w2 = (Inr (), w3)"
      "partition_calls reg (msg_tool_calls (assistant_message res)) = (server, client, unknown)"
      "answer_unknown ag tr sess (rs_backend res) (rs_model res) unknown w3 = (Inr (), w4)"
      "run_server_calls ag tr sess reg (rs_backend res) (rs_model res) server fail w4 = (Inl e, w')" "out = Inl e"
  | (awaiting) h w1 res w2 w3 server client unknown w4 fail' where
      "transcript_messages ag tr (ss_id sess) w = (Inr h, w1)"
      "call_model ag sess system (definitions reg) (with_prior_context h prior) w1 = (Inr res, w2)"
      "transcript_append ag tr (ss_id sess) [assistant_message res] w2 = (Inr (), w3)"
      "partition_calls reg (msg_tool_calls (assistant_message res)) = (server, client, unknown)"
      "answer_unknown ag tr sess (rs_backend res) (rs_model res) unknown w3 = (Inr (), w4)"
      "run_server_calls ag tr sess reg (rs_backend res) (rs_model res) server fail w4 = (Inr fail', w')"
      "client \<noteq> []"
      "out = Inr ((served res turn)\<lparr>tn_status := StatusAwaitingClient,
         tn_reply := msg_content (assistant_message res), tn_pending := describe reg client\<rparr>)"
  | (again) h w1 res w2 w3 server unknown w4 fail' w5 where
      "transcript_messages ag tr (ss_id sess) w = (Inr h, w1)"
      "call_model ag sess system (definitions reg) (with_prior_context h prior) w1 = (Inr res, w2)"
      "transcript_append ag tr (ss_id sess) [assistant_message res] w2 = (Inr (), w3)"
      "partition_calls reg (msg_tool_calls (assistant_message res)) = (server, [], unknown)"
      "answer_unknown ag tr sess (rs_backend res) (rs_model res) unknown w3 = (Inr (), w4)"
      "run_server_calls ag tr sess reg (rs_backend res) (rs_model res) server fail w4 = (Inr fail', w5)"
      "advance_loop n ag tr sess reg system prior (served res turn) fail' w5 = (out, w')"
proof -
  have sv: "tn_backend (served r t) = rs_backend r" "tn_model (served r t) = rs_model r" for r t
    by (simp_all add: served_def Let_def)
  obtain hr w1 where h: "transcript_messages ag tr (ss_id sess) w = (hr, w1)"
    by (cases "transcript_messages ag tr (ss_id sess) w")
  show ?thesis
  proof (cases hr)
    case (Inl e)
    with assms h read_failed show ?thesis by simp
  next
    case h': (Inr hist)
    obtain cr w2 where c: "call_model ag sess system (definitions reg) (with_prior_context hist prior) w1 = (cr, w2)"
      by (cases "call_model ag sess system (definitions reg) (with_prior_context hist prior) w1")
    show ?thesis
    proof (cases cr)
      case (Inl e)
      with assms h h' c model_failed show ?thesis by simp
    next
      case c': (Inr res)
      obtain ar w3 where a: "transcript_append ag tr (ss_id sess) [assistant_message res] w2 = (ar, w3)"
        by (cases "transcript_append ag tr (ss_id sess) [assistant_message res] w2")
      show ?thesis
      proof (cases "ar = Inr () \<and> msg_tool_calls (assistant_message res) \<noteq> []")
        case False
        with assms h h' c c' a append_failed complete show ?thesis
          by (cases ar) (auto simp: Let_def)
      next
        case True
        obtain server client unknown where
          p: "partition_calls reg (msg_tool_calls (assistant_message res)) = (server, client, unknown)"
          by (cases "partition_calls reg (msg_tool_calls (assistant_message res))")
        obtain ur w4 where u: "answer_unknown ag tr sess (rs_backend res) (rs_model res) unknown w3 = (ur, w4)"
          by (cases "answer_unknown ag tr sess (rs_backend res) (rs_model res) unknown w3")
        obtain sr w5 where s: "run_server_calls ag tr sess reg (rs_backend res) (rs_model res) server fail w4 = (sr, w5)"
          by (cases "run_server_calls ag tr sess reg (rs_backend res) (rs_model res) server fail w4")
        note facts = assms h h' c c' a True p u s
        show ?thesis
          using facts unknown_failed server_failed awaiting again
          by (cases ur; cases sr; cases "client = []") (simp_all add: Let_def sv)
      qed
    qed
  qed
qed

lemma advance_cases:
  assumes "advance ag sess tools incoming w = (out, w')"
  obtains (append_failed) e where "transcript_append ag (transcript_for sess w) (ss_id sess)
      (stamp incoming (fst (resolve ag sess w)) (snd (resolve ag sess w)) 0) w = (Inl e, w')" "out = Inl (AgStore e)"
  | (registry_failed) w1 e where "transcript_append ag (transcript_for sess w) (ss_id sess)
      (stamp incoming (fst (resolve ag sess w)) (snd (resolve ag sess w)) 0) w = (Inr (), w1)" "w' = w1"
      "registry_for ag sess tools w1 = Inl e" "out = Inl e"
  | (ran) w1 reg extra prior w2 system where "transcript_append ag (transcript_for sess w) (ss_id sess)
      (stamp incoming (fst (resolve ag sess w)) (snd (resolve ag sess w)) 0) w = (Inr (), w1)"
      "registry_for ag sess tools w1 = Inr (reg, extra)" "prior_context ag sess incoming w1 = (prior, w2)"
      "advance_loop (nat (ag_max_iterations ag)) ag (transcript_for sess w) sess reg system prior
        (empty_turn sess) ('''', 0) w2 = (out, w')"
  using assms append_failed registry_failed ran
  by (auto simp: advance_def Let_def split: prod.splits sum.splits)

section \<open>What every step of a turn preserves\<close>

text \<open>
  A property of the world that an append, a read, an audit record and a call to the outside
  preserve is preserved by a whole turn, however it ends.
\<close>

locale turn_invariant =
  fixes ag :: "'x agent" and tr :: transcript and sess :: session and P :: "'x world \<Rightarrow> bool"
  assumes append_keeps: "P w \<Longrightarrow> transcript_append ag tr (ss_id sess) ms w = (r, w') \<Longrightarrow> P w'"
    and read_keeps: "P w \<Longrightarrow> transcript_messages ag tr (ss_id sess) w = (rd, w') \<Longrightarrow> P w'"
    and outside_keeps: "P w \<Longrightarrow> P (w\<lparr>wl_ext := x, wl_samples := smp\<rparr>)"
    and audit_keeps: "P w \<Longrightarrow> au_session e = ss_id sess \<Longrightarrow> P (w\<lparr>wl_db := snd (record_tool now e (wl_db w))\<rparr>)"
begin

lemma ext_keeps: "P w \<Longrightarrow> P (with_ext w x)"
  using outside_keeps [where w = w and x = x and smp = "wl_samples w"] by (simp add: with_ext_def)

lemma clock_keeps: "P w \<Longrightarrow> read_clock ag w = (t, w') \<Longrightarrow> P w'"
  using ext_keeps by (auto simp: read_clock_def with_ext_def split: prod.splits)

lemma run_server_tool_keeps: "P w \<Longrightarrow> run_server_tool ag reg sess c aid w = (res, w') \<Longrightarrow> P w'"
  by (auto simp: run_server_tool_def Let_def split: option.splits prod.splits
      intro!: audit_keeps dest: clock_keeps [OF ext_keeps])

lemma answer_unknown_keeps:
  "P w \<Longrightarrow> answer_unknown ag tr sess backend model cs w = (res, w') \<Longrightarrow> P w'"
proof (induction cs arbitrary: w)
  case (Cons c cs)
  then show ?case by (auto split: prod.splits sum.splits dest: append_keeps)
qed simp

lemma run_server_calls_keeps:
  "P w \<Longrightarrow> run_server_calls ag tr sess reg backend model cs fail w = (res, w') \<Longrightarrow> P w'"
proof (induction cs arbitrary: fail w)
  case (Cons c cs)
  obtain r w1 where r: "run_server_tool ag reg sess c (tc_id c) w = (r, w1)"
    by (cases "run_server_tool ag reg sess c (tc_id c) w")
  obtain a w2 where a: "transcript_append ag tr (ss_id sess) (tool_reply r backend model) w1 = (a, w2)"
    by (cases "transcript_append ag tr (ss_id sess) (tool_reply r backend model) w1")
  have "P w2" using Cons.prems(1) r a by (blast intro: run_server_tool_keeps append_keeps)
  with Cons.prems(2) r a Cons.IH show ?case
    by (auto simp: Let_def split: sum.splits if_splits)
qed simp

lemma call_model_keeps: "P w \<Longrightarrow> call_model ag sess system defs h w = (out, w') \<Longrightarrow> P w'"
  by (auto simp: call_model_def split: prod.splits intro: outside_keeps)

lemma advance_loop_keeps:
  "P w \<Longrightarrow> advance_loop n ag tr sess reg system prior turn fail w = (res, w') \<Longrightarrow> P w'"
proof (induction n arbitrary: turn fail w)
  case (Suc n)
  note keeps = read_keeps [OF Suc.prems(1)] call_model_keeps append_keeps answer_unknown_keeps run_server_calls_keeps
  from Suc.prems(2) show ?case
  proof (cases rule: advance_loop_Suc_cases)
    case (again h w1 res w2 w3 server unknown w4 fail' w5)
    then have "P w5" by (metis keeps)
    then show ?thesis using again(7) by (rule Suc.IH)
  qed (metis keeps)+
qed simp

lemma advance_keeps:
  assumes "P w" "tr = transcript_for sess w" "advance ag sess tools incoming w = (res, w')"
  shows "P w'"
  using assms(3)
proof (cases rule: advance_cases)
  case (ran w1 reg extra prior w2 system)
  then have "P w1" using assms(1,2) append_keeps by metis
  with ran(3) have "P w2"
    by (auto simp: prior_context_def Let_def split: option.splits if_splits prod.splits intro: ext_keeps)
  with ran(4) assms(2) show ?thesis by (metis advance_loop_keeps)
qed (use assms(1,2) append_keeps in metis)+

end

section \<open>The invariants of a turn\<close>

lemma record_tool_tables [simp]:
  "db_messages (snd (record_tool now e db)) = db_messages db"
  "db_sessions (snd (record_tool now e db)) = db_sessions db"
  "session_rows sid (snd (record_tool now e db)) = session_rows sid db"
  by (simp_all add: record_tool_def Let_def session_rows_def)

lemma record_tool_other:
  "au_session e \<noteq> sid \<Longrightarrow>
     filter (\<lambda>e. au_session e = sid) (db_audit (snd (record_tool now e db))) =
     filter (\<lambda>e. au_session e = sid) (db_audit db)"
  by (simp add: record_tool_def Let_def)

lemma transcript_append_off:
  assumes "transcript_append sv (DualTranscript False) sid ms w = (r, w')"
  shows "r = Inr ()" and "wl_db w' = wl_db w" and "wl_index w' = wl_index w"
proof -
  have w': "memory_append sv sid ms w = w'" and "r = Inr ()"
    using assms by (simp_all add: transcript_append_def)
  then show "r = Inr ()" by simp
  show "wl_db w' = wl_db w" "wl_index w' = wl_index w"
    using w' by (rule memory_append_cases, simp_all)+
qed

lemma transcript_messages_state:
  assumes "transcript_messages sv tr sid w = (r, w')"
  shows "wl_db w' = wl_db w" and "wl_index w' = wl_index w"
proof -
  have "memory_read sv sid v = (h, v') \<Longrightarrow> wl_index v' = wl_index v" for v v' h
    by (auto simp: memory_read_def split: option.splits prod.splits if_splits dest: read_clock_state)
  then show "wl_db w' = wl_db w" "wl_index w' = wl_index w"
    using assms memory_read_same(3)
    by (auto simp: transcript_messages_def split: transcript.splits prod.splits)
qed

interpretation off_record: turn_invariant ag "DualTranscript False" sess
    "\<lambda>w. db_messages (wl_db w) = M \<and> db_sessions (wl_db w) = S \<and> wl_index w = I" for ag sess M S I
  by unfold_locales (auto dest: transcript_append_off transcript_messages_state)

lemma append_messages_tables:
  assumes "append_messages cd now sid ms db = (res, db')" "sid' \<noteq> sid"
  shows "filter (\<lambda>s. ss_id s = sid') (db_sessions db') = filter (\<lambda>s. ss_id s = sid') (db_sessions db)"
    and "db_audit db' = db_audit db" and "session_rows sid' db' = session_rows sid' db"
proof -
  have up: "filter (\<lambda>s. ss_id s = sid') (update_rows (\<lambda>s. ss_id s = sid) (\<lambda>s. s\<lparr>ss_updated := now\<rparr>) xs) =
      filter (\<lambda>s. ss_id s = sid') xs" for xs
    using assms(2) by (induction xs) (auto simp: update_rows_def)
  have ins: "insert_messages cd now sid seq ms db = (Inr ids, db1) \<Longrightarrow> db_sessions db1 = db_sessions db \<and> db_audit db1 = db_audit db"
    for seq ids db1
    by (drule insert_messages_rows) auto
  have "(\<exists>e. res = Inl e \<and> db' = db) \<or> (\<exists>ids. res = Inr ids)"
    using assms(1) append_messages_rejected [of cd now sid ms db _ db'] by (cases res) auto
  then show "filter (\<lambda>s. ss_id s = sid') (db_sessions db') = filter (\<lambda>s. ss_id s = sid') (db_sessions db)"
    "db_audit db' = db_audit db"
    using assms(1) ins up
    by (auto simp: append_messages_def update_sessions_def split: if_splits prod.splits sum.splits)
  show "session_rows sid' db' = session_rows sid' db"
  proof (cases res)
    case (Inl e)
    with assms append_messages_rejected [of cd now sid ms db e db'] show ?thesis by simp
  next
    case (Inr ids)
    with append_messages_rows [of cd now sid ms db ids db'] assms show ?thesis by metis
  qed
qed

lemma store_append_tables:
  assumes "store_append sv sid ms w = (res, w')" "sid' \<noteq> sid"
  shows "filter (\<lambda>s. ss_id s = sid') (db_sessions (wl_db w')) = filter (\<lambda>s. ss_id s = sid') (db_sessions (wl_db w)) \<and>
    db_audit (wl_db w') = db_audit (wl_db w) \<and> session_rows sid' (wl_db w') = session_rows sid' (wl_db w)"
  using assms(1)
proof (cases rule: store_append_cases)
  case (1 now ids)
  from append_messages_tables [OF 1(2) assms(2)] show ?thesis by simp
qed simp

lemma transcript_append_tables:
  assumes "transcript_append sv tr sid ms w = (res, w')" "sid' \<noteq> sid"
  shows "filter (\<lambda>s. ss_id s = sid') (db_sessions (wl_db w')) = filter (\<lambda>s. ss_id s = sid') (db_sessions (wl_db w)) \<and>
    db_audit (wl_db w') = db_audit (wl_db w) \<and> session_rows sid' (wl_db w') = session_rows sid' (wl_db w)"
  using assms store_append_tables [OF _ assms(2), of sv ms _ res w'] memory_append_db [of sv sid ms w]
  by (auto simp: transcript_append_def Let_def split: transcript.splits if_splits)

lemma transcript_append_audit:
  assumes "transcript_append sv tr sid ms w = (res, w')"
  shows "db_audit (wl_db w') = db_audit (wl_db w)"
proof -
  have "\<exists>sid'. sid' \<noteq> sid" by (metis list.distinct(1))
  with transcript_append_tables [OF assms] show ?thesis by blast
qed

interpretation others: turn_invariant ag tr sess
    "\<lambda>w. sid' \<noteq> ss_id sess \<longrightarrow> filter (\<lambda>s. ss_id s = sid') (db_sessions (wl_db w)) = S \<and>
       filter (\<lambda>e. au_session e = sid') (db_audit (wl_db w)) = A \<and> session_rows sid' (wl_db w) = R"
    for ag tr sess sid' S A R
  by unfold_locales (auto simp: record_tool_other dest: transcript_append_tables transcript_messages_state)

interpretation tables: turn_invariant ag tr sess "\<lambda>w. store_wf (wl_db w)" for ag tr sess
proof (unfold_locales, goal_cases)
  case (1 w ms r w')
  have st: "store_wf (wl_db v') " if "store_append ag (ss_id sess) ms v = (q, v')" "store_wf (wl_db v)" for v v' q
    using that(1) by (rule store_append_cases) (use that(2) append_messages_wf in \<open>metis\<close>)+
  from 1 show ?case
    using st memory_append_db [of ag "ss_id sess" ms w]
    by (auto simp: transcript_append_def Let_def split: transcript.splits if_splits)
next
  case (4 w e now)
  obtain r db where "record_tool now e (wl_db w) = (r, db)" by (cases "record_tool now e (wl_db w)")
  with 4 record_tool_wf [of "wl_db w" now e r db] show ?case by simp
qed (auto dest: transcript_messages_state)

text \<open>A recorded conversation only grows, by the stamped incoming messages first.\<close>

definition codec_total :: "codec \<Rightarrow> bool" where
  "codec_total cd \<longleftrightarrow> (\<forall>m. storable cd m)"

interpretation grows: turn_invariant ag StoreTranscript sess
    "\<lambda>w. codec_total (sv_codec ag) \<longrightarrow> (\<exists>more. messages (sv_codec ag) (ss_id sess) (wl_db w) = Inr (h @ more))"
    for ag sess h
proof (unfold_locales, goal_cases)
  case (1 w ms r w')
  then have app: "store_append ag (ss_id sess) ms w = (r, w')" by (simp add: transcript_append_def)
  show ?case
  proof
    assume total: "codec_total (sv_codec ag)"
    with 1 obtain more where more: "messages (sv_codec ag) (ss_id sess) (wl_db w) = Inr (h @ more)" by blast
    from app show "\<exists>more. messages (sv_codec ag) (ss_id sess) (wl_db w') = Inr (h @ more)"
    proof (cases rule: store_append_cases)
      case (1 now ids)
      from append_messages_reads [OF 1(2) _ more] total show ?thesis by (simp add: codec_total_def)
    qed (use more in simp)
  qed
qed (auto simp: messages_def dest: transcript_messages_state)

section \<open>How a turn ends\<close>

lemma partition_calls_sides:
  "partition_calls reg cs = (server, client, unknown) \<Longrightarrow>
     (\<forall>c \<in> set client. \<exists>d. reg_definition reg (tc_name c) = Some d \<and> td_side d = SideClient) \<and>
     (\<forall>c \<in> set server. \<exists>d. reg_definition reg (tc_name c) = Some d \<and> td_side d = SideServer) \<and>
     (\<forall>c \<in> set unknown. reg_definition reg (tc_name c) = None) \<and>
     mset cs = mset server + mset client + mset unknown"
proof (induction cs arbitrary: server client unknown)
  case (Cons c cs)
  obtain s k u where p: "partition_calls reg cs = (s, k, u)" by (cases "partition_calls reg cs")
  show ?case
  proof (cases "reg_definition reg (tc_name c)")
    case None
    with Cons.prems p Cons.IH [OF p] show ?thesis by auto
  next
    case (Some d)
    with Cons.prems p Cons.IH [OF p] show ?thesis by (cases "td_side d") auto
  qed
qed simp

lemma advance_loop_result:
  "advance_loop n ag tr sess reg system prior turn fail w = (Inr t, w') \<Longrightarrow>
     tn_status t = StatusComplete \<or>
     tn_status t = StatusAwaitingClient \<and> tn_pending t \<noteq> [] \<and>
     (\<forall>p \<in> set (tn_pending t). \<exists>d. reg_definition reg (tc_name (pc_call p)) = Some d \<and>
        td_side d = SideClient \<and> pc_risk p = td_risk d)"
proof (induction n arbitrary: turn fail w)
  case (Suc n)
  from Suc.prems show ?case
  proof (cases rule: advance_loop_Suc_cases)
    case (awaiting h w1 res w2 w3 server client unknown w4 fail')
    with partition_calls_sides [OF awaiting(4)] show ?thesis
      by (fastforce simp: describe_def split: option.splits)
  next
    case (again h w1 res w2 w3 server unknown w4 fail' w5)
    from Suc.IH [OF again(7)] show ?thesis .
  qed simp_all
qed simp

definition scope_server_only :: "'x agent \<Rightarrow> bool" where
  "scope_server_only ag \<longleftrightarrow>
     server_only (ag_tools ag) \<and>
     (\<forall>sc w c a reg. ag_scope ag = Some sc \<longrightarrow> server_only reg \<longrightarrow>
        (\<forall>p reg'. sc_scope sc w c a reg = Inr (p, reg') \<longrightarrow> server_only reg') \<and>
        (\<forall>ok p reg'. sc_web sc reg = Inr (ok, p, reg') \<longrightarrow> server_only reg'))"

lemma registry_for_client_tools:
  assumes ok: "scope_server_only ag" and r: "registry_for ag sess tools w = Inr (reg, extra)"
    and d: "reg_definition reg n = Some d" "td_side d = SideClient"
  shows "\<exists>d0 \<in> set tools. td_name d0 = n \<and> td_risk d0 = td_risk d"
proof (cases "ss_tools sess")
  case False
  with r have "reg = new_registry \<or>
      (\<exists>sc ok p. ag_scope ag = Some sc \<and> sc_web sc new_registry = Inr (ok, p, reg))"
    by (auto simp: registry_for_def split: if_splits option.splits sum.splits)
  then have "server_only reg"
    using ok new_registry_server_only unfolding scope_server_only_def by metis
  with d server_only_lookup show ?thesis by force
next
  case True
  with r obtain base prompt where base: "(case ag_scope ag of None \<Rightarrow> Inr ('''', clone (ag_tools ag))
      | Some sc \<Rightarrow> (case sc_scope sc w (ss_client sess) (ss_agent sess) (clone (ag_tools ag)) of
            Inl e \<Rightarrow> Inl (AgScope e) | Inr pr \<Rightarrow> Inr pr)) = Inr (prompt, base)"
    and reg: "register_clients base tools = Inr reg"
    by (auto simp: registry_for_def split: sum.splits prod.splits)
  have so: "server_only base"
  proof (cases "ag_scope ag")
    case None
    with base ok clone_server_only show ?thesis by (auto simp: scope_server_only_def)
  next
    case (Some sc)
    with base have "sc_scope sc w (ss_client sess) (ss_agent sess) (clone (ag_tools ag)) = Inr (prompt, base)"
      by (auto split: sum.splits)
    with Some ok clone_server_only [of "ag_tools ag"] show ?thesis unfolding scope_server_only_def by blast
  qed
  show ?thesis
  proof (cases "reg_definition base n")
    case None
    with reg d(1) show ?thesis by (rule register_clients_new)
  next
    case (Some d1)
    with register_clients_keeps [OF reg Some] d(1) server_only_lookup [OF so Some] d(2) show ?thesis by simp
  qed
qed

lemma advance_loop_toolless:
  "advance_loop n ag tr sess new_registry system prior turn fail w = (out, w') \<Longrightarrow>
     db_audit (wl_db w') = db_audit (wl_db w) \<and>
     (\<forall>t. out = Inr t \<longrightarrow> tn_status t = StatusComplete)"
proof (induction n arbitrary: turn fail w)
  case (Suc n)
  have none: "partition_calls new_registry cs = ([], [], cs)" for cs
    by (induction cs) (simp_all add: new_registry_def reg_definition_def)
  have unk: "answer_unknown ag tr sess b m cs v = (r, v') \<Longrightarrow> db_audit (wl_db v') = db_audit (wl_db v)" for b m cs v r v'
  proof (induction cs arbitrary: v)
    case (Cons c cs)
    then show ?case by (auto split: prod.splits sum.splits dest!: transcript_append_audit) (metis)?
  qed simp
  have cm: "call_model ag sess system defs h v = (q, v') \<Longrightarrow> wl_db v' = wl_db v" for defs h v q v'
    by (auto simp: call_model_def split: prod.splits)
  note keeps = transcript_messages_state(1) cm transcript_append_audit unk
  from Suc.prems show ?case
  proof (cases rule: advance_loop_Suc_cases)
    case (server_failed h w1 res w2 w3 server client unknown w4 e)
    then show ?thesis by (simp add: none)
  next
    case (awaiting h w1 res w2 w3 server client unknown w4 fail')
    then show ?thesis by (simp add: none)
  next
    case (again h w1 res w2 w3 server unknown w4 fail' w5)
    then have "db_audit (wl_db w5) = db_audit (wl_db w)" by (simp add: none) (metis keeps)
    with Suc.IH [OF again(7)] show ?thesis by simp
  qed (auto dest!: keeps)
qed auto

section \<open>Server tools and their failures\<close>

lemma run_server_tool_executes:
  assumes "reg_handler reg (tc_name c) = Some h" "h w (tc_input c) = (out, x)"
    "run_server_tool ag reg sess c aid w = (res, w')"
  shows "tr_is_error res = (\<not> res_ok out)" and "tr_call_id res = tc_id c"
    and "out = Inr txt \<Longrightarrow> tr_content res = txt"
    and "out = Inl err \<Longrightarrow> tr_content res = ''tool '' @ go_quote (tc_name c) @ '' failed: '' @ err"
  using assms by (auto simp: run_server_tool_def errorf_def split: sum.splits prod.splits)

lemma run_server_tool_audit:
  assumes "reg_handler reg (tc_name c) = Some h" "reg_definition reg (tc_name c) = Some d"
    "ss_id sess \<in> ss_id ` set (db_sessions (wl_db w))" "run_server_tool ag reg sess c aid w = (res, w')"
  shows "\<exists>e. db_audit (wl_db w') = db_audit (wl_db w) @ [e] \<and> au_session e = ss_id sess \<and> au_call_id e = aid \<and>
    au_tool e = tc_name c \<and> au_risk e = td_risk d \<and> au_decision e = ''auto'' \<and> au_is_error e = tr_is_error res"
proof -
  obtain out x where h: "h w (tc_input c) = (out, x)" by (cases "h w (tc_input c)")
  obtain now w1 where c: "read_clock ag (with_ext w x) = (now, w1)" by (cases "read_clock ag (with_ext w x)")
  have db: "wl_db w1 = wl_db w" using read_clock_state [OF c] by (simp add: with_ext_def)
  show ?thesis
    using assms h c db
    by (auto simp: run_server_tool_def record_tool_def Let_def)
qed

lemma run_server_calls_repeats:
  "run_server_calls ag tr sess reg b m cs fail w = (out, w') \<Longrightarrow> snd fail < repeated_tool_failure_limit \<Longrightarrow>
     (\<forall>key n. out = Inl (AgRepeated key n) \<longrightarrow> n = repeated_tool_failure_limit) \<and>
     (\<forall>fail'. out = Inr fail' \<longrightarrow> snd fail' < repeated_tool_failure_limit)"
proof (induction cs arbitrary: fail w)
  case (Cons c cs)
  have one: "snd ('''' :: string, 0 :: nat) < repeated_tool_failure_limit" "snd (k :: string, 1 :: nat) < repeated_tool_failure_limit" for k
    by (simp_all add: repeated_tool_failure_limit_def)
  obtain r w1 where r: "run_server_tool ag reg sess c (tc_id c) w = (r, w1)"
    by (cases "run_server_tool ag reg sess c (tc_id c) w")
  obtain a w2 where a: "transcript_append ag tr (ss_id sess) (tool_reply r b m) w1 = (a, w2)"
    by (cases "transcript_append ag tr (ss_id sess) (tool_reply r b m) w1")
  show ?case
  proof (cases a)
    case (Inl e)
    with Cons.prems r a show ?thesis by auto
  next
    case (Inr u)
    define key where "key = tc_name c @ '': '' @ tr_content r"
    have eq: "(out, w') =
       (if \<not> tr_is_error r then run_server_calls ag tr sess reg b m cs ('''', 0) w2
        else if key = fst fail
          then (if repeated_tool_failure_limit \<le> snd fail + 1 then (Inl (AgRepeated key (snd fail + 1)), w2)
                else run_server_calls ag tr sess reg b m cs (fst fail, snd fail + 1) w2)
          else run_server_calls ag tr sess reg b m cs (key, 1) w2)"
      unfolding Cons.prems(1) [symmetric] key_def by (simp only: run_server_calls.simps Let_def r a Inr prod.case sum.case)
    consider "\<not> tr_is_error r" | "tr_is_error r" "key = fst fail" "repeated_tool_failure_limit \<le> snd fail + 1"
      | "tr_is_error r" "key = fst fail" "snd fail + 1 < repeated_tool_failure_limit"
      | "tr_is_error r" "key \<noteq> fst fail" by linarith
    then show ?thesis
    proof cases
      case 1
      with eq Cons.IH [of "('''', 0)" w2, OF _ one(1)] show ?thesis by simp
    next
      case 2
      with eq Cons.prems(2) show ?thesis by auto
    next
      case 3
      with eq Cons.IH [of "(fst fail, snd fail + 1)" w2] show ?thesis by simp
    next
      case 4
      with eq Cons.IH [of "(key, 1)" w2, OF _ one(2)] show ?thesis by simp
    qed
  qed
qed auto

text \<open>The key the guard compares: the tool's name and the text of its result.\<close>

definition failure_key :: "string \<Rightarrow> string \<Rightarrow> string" where
  "failure_key n err = n @ '': tool '' @ go_quote n @ '' failed: '' @ err"

lemma failing_call:
  assumes h: "reg_handler reg (tc_name c) = Some h" "\<And>v inp. fst (h v inp) = Inl err"
  shows "\<exists>w'. run_server_calls ag (DualTranscript False) sess reg b m (c # cs) fail w =
    (let key = failure_key (tc_name c) err
     in if key = fst fail
        then (if repeated_tool_failure_limit \<le> snd fail + 1 then (Inl (AgRepeated key (snd fail + 1)), w')
              else run_server_calls ag (DualTranscript False) sess reg b m cs (fst fail, snd fail + 1) w')
        else run_server_calls ag (DualTranscript False) sess reg b m cs (key, 1) w')"
proof -
  obtain r w1 where r: "run_server_tool ag reg sess c (tc_id c) w = (r, w1)"
    by (cases "run_server_tool ag reg sess c (tc_id c) w")
  obtain x where x: "h w (tc_input c) = (Inl err, x)" using h(2) [of w "tc_input c"] by (metis prod.collapse)
  note res = run_server_tool_executes [OF h(1) x r]
  obtain a w2 where a: "transcript_append ag (DualTranscript False) (ss_id sess) (tool_reply r b m) w1 = (a, w2)"
    by (cases "transcript_append ag (DualTranscript False) (ss_id sess) (tool_reply r b m) w1")
  have "a = Inr ()" using transcript_append_off(1) [OF a] .
  with r a res(1) res(4) [OF refl] show ?thesis by (intro exI [of _ w2]) (simp add: Let_def failure_key_def)
qed

section \<open>A small deployment\<close>

text \<open>One local backend that always gives the same answer, no scoper and no recaller.\<close>

definition demo_env :: "response \<Rightarrow> unit env" where
  "demo_env rp = \<lparr>
     env_router = \<lambda>_. \<lparr>rt_backends = [(''local'', \<lparr>be_name = ''local'', be_provider = \<lambda>w _. (Inr rp, w),
         be_model = ''qwen'', be_cloud = False\<rparr>)],
       rt_order = [''local''], rt_def = ''local'', rt_fallback = '''', rt_recorder = False\<rparr>,
     env_ctx_err = \<lambda>_. False, env_now = \<lambda>_. 0, env_yield = \<lambda>w. w\<rparr>"

definition demo_response :: "string \<Rightarrow> tool_call list \<Rightarrow> response" where
  "demo_response txt calls = \<lparr>rp_message = (blank_message RoleAssistant)\<lparr>msg_content := txt, msg_tool_calls := calls\<rparr>,
     rp_stop_reason = ''stop'', rp_usage = \<lparr>us_prompt = 1, us_completion = 1, us_total = 2\<rparr>\<rparr>"

definition demo_agent :: "response \<Rightarrow> unit handler registry \<Rightarrow> unit agent" where
  "demo_agent rp tools = \<lparr>sv_codec = framed_codec, sv_clock = \<lambda>_. (5, ()), sv_indexer = False,
     ag_env = demo_env rp, ag_tools = tools, ag_max_iterations = 12, ag_system = ''S'', ag_plain = ''P'',
     ag_plain_web = ''W'', ag_today = \<lambda>_. ''Today'', ag_scope = None, ag_recaller = None\<rparr>"

definition demo_session :: "bool \<Rightarrow> session" where
  "demo_session rec = \<lparr>ss_id = ''s1'', ss_client = 1, ss_title = '''', ss_backend = '''', ss_model = '''', ss_agent = '''',
     ss_record = rec, ss_recall = True, ss_tools = True, ss_web = False, ss_created = 1, ss_updated = 1\<rparr>"

definition demo_world :: "bool \<Rightarrow> unit world" where
  "demo_world rec = \<lparr>wl_db = empty_store\<lparr>db_sessions := [demo_session rec]\<rparr>,
     wl_pool = Some (new_ephemeral 0 0), wl_index = [], wl_samples = [], wl_ext = ()\<rparr>"

section \<open>Properties\<close>

text \<open>C6: A turn of an off-the-record conversation, however it ends, writes no message to the store,
  touches no session row and tells the retrieval indexer nothing; only the audit trail grows.\<close>

theorem off_record_turn_writes_nothing:
  assumes "ss_record sess = False" "wl_pool w = Some e"
    and "advance ag sess tools incoming w = (out, w')"
  shows "db_messages (wl_db w') = db_messages (wl_db w) \<and> db_sessions (wl_db w') = db_sessions (wl_db w) \<and>
    wl_index w' = wl_index w"
proof -
  have tr: "transcript_for sess w = DualTranscript False" using assms(1,2) by (simp add: transcript_for_def)
  show ?thesis
    by (rule off_record.advance_keeps [OF _ tr [symmetric] assms(3)]) simp
qed

lemma off_record_turn_writes_nothing_witness:
  "db_messages (wl_db (snd (advance (demo_agent (demo_response ''ok'' []) new_registry) (demo_session False) []
     [user_message ''secret''] (demo_world False)))) = []"
proof -
  obtain out w' where a: "advance (demo_agent (demo_response ''ok'' []) new_registry) (demo_session False) []
      [user_message ''secret''] (demo_world False) = (out, w')"
    by (cases "advance (demo_agent (demo_response ''ok'' []) new_registry) (demo_session False) []
      [user_message ''secret''] (demo_world False)")
  from off_record_turn_writes_nothing [OF _ _ a] show ?thesis
    unfolding a snd_conv by (simp add: demo_session_def demo_world_def empty_store_def)
qed


definition empty_world :: "unit world" where
  "empty_world = \<lparr>wl_db = empty_store, wl_pool = Some (new_ephemeral 0 0), wl_index = [], wl_samples = [], wl_ext = ()\<rparr>"


lemma turn_appends_stamped:
  assumes "codec_total (sv_codec ag)" "transcript_for sess w = StoreTranscript"
    and "messages (sv_codec ag) (ss_id sess) (wl_db w) = Inr h"
    and "advance ag sess tools incoming w = (out, w')"
  shows "\<exists>more. messages (sv_codec ag) (ss_id sess) (wl_db w') = Inr (h @ more) \<and>
    ((\<exists>e. out = Inl (AgStore e) \<and> more = []) \<or>
     (\<exists>later. more = stamp incoming (fst (resolve ag sess w)) (snd (resolve ag sess w)) 0 @ later))"
  using assms(4)
proof (cases rule: advance_cases)
  case (append_failed e)
  then have "store_append ag (ss_id sess) (stamp incoming (fst (resolve ag sess w)) (snd (resolve ag sess w)) 0) w = (Inl e, w')"
    using assms(2) by (simp add: transcript_append_def)
  then have "wl_db w' = wl_db w" by (rule store_append_cases) simp_all
  with append_failed assms(3) show ?thesis by auto
next
  case (registry_failed w1 e)
  then have "store_append ag (ss_id sess) (stamp incoming (fst (resolve ag sess w)) (snd (resolve ag sess w)) 0) w = (Inr (), w')"
    using assms(2) by (simp add: transcript_append_def)
  then have "messages (sv_codec ag) (ss_id sess) (wl_db w') =
      Inr (h @ stamp incoming (fst (resolve ag sess w)) (snd (resolve ag sess w)) 0)"
    by (rule store_append_cases) (use assms(1,3) append_messages_reads in \<open>auto simp: codec_total_def\<close>)
  then show ?thesis by auto
next
  case (ran w1 reg extra prior w2 system)
  define new where "new = stamp incoming (fst (resolve ag sess w)) (snd (resolve ag sess w)) 0"
  from ran(1) have "store_append ag (ss_id sess) new w = (Inr (), w1)"
    using assms(2) by (simp add: transcript_append_def new_def)
  then have "messages (sv_codec ag) (ss_id sess) (wl_db w1) = Inr (h @ new)"
    by (rule store_append_cases) (use assms(1,3) append_messages_reads in \<open>auto simp: codec_total_def\<close>)
  then have "codec_total (sv_codec ag) \<longrightarrow>
      (\<exists>more. messages (sv_codec ag) (ss_id sess) (wl_db w1) = Inr ((h @ new) @ more))" by simp
  then have "codec_total (sv_codec ag) \<longrightarrow>
      (\<exists>more. messages (sv_codec ag) (ss_id sess) (wl_db w2) = Inr ((h @ new) @ more))"
    using ran(3) by (auto simp: prior_context_def Let_def with_ext_def split: option.splits if_splits prod.splits)
  from grows.advance_loop_keeps [OF this ran(4) [unfolded assms(2)]] assms(1) show ?thesis
    by (auto simp: new_def)
qed



text \<open>C7: A turn that ends without an error is complete or waits for the client. Every call it hands over
  is to a tool this request declared, with the risk it declared; a call to a server tool is never
  handed over, and the list is never empty.\<close>

theorem pending_calls_are_declared:
  assumes "scope_server_only ag" "advance ag sess tools incoming w = (Inr t, w')"
  shows "tn_status t = StatusComplete \<or>
    tn_status t = StatusAwaitingClient \<and> tn_pending t \<noteq> [] \<and>
    list_all (\<lambda>p. \<exists>d \<in> set tools. td_name d = tc_name (pc_call p) \<and> td_risk d = pc_risk p) (tn_pending t)"
  using assms(2)
proof (cases rule: advance_cases)
  case (ran w1 reg extra prior w2 system)
  from advance_loop_result [OF ran(4)] registry_for_client_tools [OF assms(1) ran(2)] show ?thesis
    by (fastforce simp: list_all_iff)
qed simp_all

definition rename_call :: tool_call where
  "rename_call = \<lparr>tc_id = ''c1'', tc_name = ''rename_file'', tc_input = ''{}''\<rparr>"

lemma pending_calls_are_declared_witness:
  "\<exists>t w'. advance (demo_agent (demo_response '''' [rename_call]) new_registry) (demo_session False)
       [demo_def ''rename_file'' RiskWrite] [user_message ''hi''] (demo_world False) = (Inr t, w') \<and>
     tn_pending t \<noteq> []"
proof -
  define ag where "ag = demo_agent (demo_response '''' [rename_call]) new_registry"
  have so: "scope_server_only ag" by (simp add: scope_server_only_def ag_def demo_agent_def)
  have st: "fst (advance ag (demo_session False) [demo_def ''rename_file'' RiskWrite] [user_message ''hi''] (demo_world False))
      = Inr \<lparr>tn_session = ''s1'', tn_status = StatusAwaitingClient, tn_reply = '''',
          tn_pending = [\<lparr>pc_call = rename_call, pc_risk = RiskWrite, pc_description = ''''\<rparr>],
          tn_usage = \<lparr>us_prompt = 1, us_completion = 1, us_total = 2\<rparr>, tn_backend = ''local'', tn_model = ''qwen'',
          tn_fell_back_from = '''', tn_fallback_reason = ''''\<rparr>"
    unfolding advance_def ag_def
    by (simp add: demo_agent_def demo_session_def demo_world_def transcript_for_def resolve_def demo_env_def
        lookup_backend_def transcript_append_def registry_for_def clone_def new_registry_def register_client_def
        register_def_def demo_def_def prior_context_def numeral_eq_Suc transcript_messages_def call_model_def
        complete_def complete_one_def backend_complete_def demo_response_def assistant_message_def served_def
        rename_call_def reg_definition_def describe_def empty_turn_def Let_def memory_append_def memory_read_def
        read_clock_def pool_read_def pool_has_def add_usage_def add64_def wrap64_def
        new_ephemeral_def pool_append_def evict_def evict_over.simps split: prod.split option.split)
  then obtain t w' where a: "advance ag (demo_session False) [demo_def ''rename_file'' RiskWrite] [user_message ''hi'']
      (demo_world False) = (Inr t, w')" and "tn_status t = StatusAwaitingClient"
    by (metis (no_types, lifting) fst_conv prod.collapse turn.select_convs(2))
  with pending_calls_are_declared [OF so a] show ?thesis by (auto simp: ag_def [symmetric])
qed

text \<open>C21: A conversation with neither tools nor the web runs no tool: whatever the model asks for, nothing
  is executed or audited and nothing is handed to the client.\<close>

theorem toolless_turn_runs_nothing:
  assumes "ss_tools sess = False" "ss_web sess = False" "advance ag sess tools incoming w = (out, w')"
  shows "db_audit (wl_db w') = db_audit (wl_db w) \<and>
    (case out of Inl _ \<Rightarrow> True | Inr t \<Rightarrow> tn_status t = StatusComplete)"
  using assms(3)
proof (cases rule: advance_cases)
  case (ran w1 reg extra prior w2 system)
  have "reg = new_registry" using ran(2) assms(1,2) by (simp add: registry_for_def)
  with ran(4) have l: "advance_loop (nat (ag_max_iterations ag)) ag (transcript_for sess w) sess new_registry system prior
      (empty_turn sess) ('''', 0) w2 = (out, w')" by simp
  have "wl_db w2 = wl_db w1"
    using ran(3) by (auto simp: prior_context_def Let_def with_ext_def split: option.splits if_splits prod.splits)
  with advance_loop_toolless [OF l] transcript_append_audit [OF ran(1)] show ?thesis
    by (auto split: sum.splits)
qed (auto dest: transcript_append_audit)

lemma toolless_turn_runs_nothing_witness:
  "db_audit (wl_db (snd (advance (demo_agent (demo_response '''' [rename_call]) new_registry)
     ((demo_session True)\<lparr>ss_tools := False\<rparr>) [] [user_message ''hi''] (demo_world True)))) = []"
proof -
  define s where "s = (demo_session True)\<lparr>ss_tools := False\<rparr>"
  define ag where "ag = demo_agent (demo_response '''' [rename_call]) new_registry"
  obtain out w' where a: "advance ag s [] [user_message ''hi''] (demo_world True) = (out, w')"
    by (cases "advance ag s [] [user_message ''hi''] (demo_world True)")
  have "ss_tools s = False" "ss_web s = False" by (simp_all add: s_def demo_session_def)
  from toolless_turn_runs_nothing [OF this a] show ?thesis
    unfolding s_def [symmetric] ag_def [symmetric] a by (simp add: demo_world_def empty_store_def)
qed


definition issue_registry :: "unit handler registry" where
  "issue_registry = \<lparr>reg_defs = [(''issue_invoice'', demo_def ''issue_invoice'' RiskDestructive)],
     reg_handlers = [(''issue_invoice'', \<lambda>w inp. (Inr ''issued'', ()))]\<rparr>"



definition failing_registry :: "unit handler registry" where
  "failing_registry = \<lparr>reg_defs = [(''add_task'', demo_def ''add_task'' RiskWrite)],
     reg_handlers = [(''add_task'', \<lambda>w inp. (Inl ''no such list'', ()))]\<rparr>"


end
