(* ===== verification/GoDate.thy ===== *)
theory GoDate
  imports Prelude
begin

text \<open>
  Calendar dates as the code uses them: \<open>time.Parse\<close> and \<open>Time.Format\<close> with the layout
  \<open>2006-01-02\<close>, \<open>AddDate(0, 0, n)\<close>, and the whole days between two dates. The code
  stores dates as text and compares them as text, so the order of the rendered strings is
  related to the order of the days.
\<close>

record civil =
  cyear :: nat
  cmonth :: nat
  cday :: nat

definition leap :: "nat \<Rightarrow> bool" where
  "leap y \<longleftrightarrow> y mod 4 = 0 \<and> (y mod 100 \<noteq> 0 \<or> y mod 400 = 0)"

definition days_in :: "nat \<Rightarrow> nat \<Rightarrow> nat" where
  "days_in y m =
     (if m = 2 then (if leap y then 29 else 28)
      else if m = 4 \<or> m = 6 \<or> m = 9 \<or> m = 11 then 30 else 31)"

definition valid_civil :: "civil \<Rightarrow> bool" where
  "valid_civil d \<longleftrightarrow> 1 \<le> cmonth d \<and> cmonth d \<le> 12 \<and> 1 \<le> cday d \<and> cday d \<le> days_in (cyear d) (cmonth d)"

text \<open>\<open>time.Parse("2006-01-02", s)\<close>: four digits, a dash, two digits, a dash, two digits and
  nothing after them, with a month and a day that exist. None stands for the parse error.\<close>

definition parse_date :: "string \<Rightarrow> civil option" where
  "parse_date s =
     (if length s = 10 \<and> s ! 4 = CHR ''-'' \<and> s ! 7 = CHR ''-'' then
        (case (parse_nat (take 4 s), parse_nat (take 2 (drop 5 s)), parse_nat (drop 8 s)) of
           (Some y, Some m, Some d) \<Rightarrow>
             (let c = \<lparr>cyear = y, cmonth = m, cday = d\<rparr> in if valid_civil c then Some c else None)
         | _ \<Rightarrow> None)
      else None)"

text \<open>\<open>Format\<close> pads the year to four digits and lets a longer one run over.\<close>

definition format_date :: "civil \<Rightarrow> string" where
  "format_date c =
     pad_left 4 (nat_str (cyear c)) @ ''-'' @ pad_left 2 (nat_str (cmonth c)) @ ''-'' @
     pad_left 2 (nat_str (cday c))"

definition next_day :: "civil \<Rightarrow> civil" where
  "next_day c =
     (if cday c < days_in (cyear c) (cmonth c) then c\<lparr>cday := cday c + 1\<rparr>
      else if cmonth c < 12 then c\<lparr>cmonth := cmonth c + 1, cday := 1\<rparr>
      else \<lparr>cyear = cyear c + 1, cmonth = 1, cday = 1\<rparr>)"

text \<open>\<open>AddDate(0, 0, n)\<close> for a non-negative \<open>n\<close>, which is all the code passes.\<close>

fun add_days_civil :: "nat \<Rightarrow> civil \<Rightarrow> civil" where
  "add_days_civil 0 c = c"
| "add_days_civil (Suc n) c = add_days_civil n (next_day c)"

text \<open>The number of days from 0000-01-01: whole years before, whole months before, days.\<close>

definition days_before_year :: "nat \<Rightarrow> int" where
  "days_before_year y = int (365 * y) + int ((y + 3) div 4) - int ((y + 99) div 100) + int ((y + 399) div 400)"

fun days_before_month :: "nat \<Rightarrow> nat \<Rightarrow> nat" where
  "days_before_month y 0 = 0"
| "days_before_month y (Suc m) = (if m = 0 then 0 else days_before_month y m + days_in y m)"

definition day_number :: "civil \<Rightarrow> int" where
  "day_number c = days_before_year (cyear c) + int (days_before_month (cyear c) (cmonth c) + cday c)"

text \<open>\<open>int(a.Sub(b).Hours() / 24)\<close>: the difference in days. \<open>Sub\<close> saturates at the longest
  Duration, which is 106751 whole days.\<close>

definition days_between :: "civil \<Rightarrow> civil \<Rightarrow> int" where
  "days_between a b = max (-106751) (min 106751 (day_number a - day_number b))"

section \<open>Days and their numbers\<close>

lemma days_in_pos: "28 \<le> days_in y m" "days_in y m \<le> 31"
  by (auto simp: days_in_def)

lemma valid_next_day: "valid_civil c \<Longrightarrow> valid_civil (next_day c)"
  using days_in_pos(1) by (auto simp: valid_civil_def next_day_def days_in_def)

lemma div_shift:
  assumes k: "0 < k"
  shows "(y + k) div k = (y + (k - 1)) div k + (if y mod k = 0 then 1 else (0::nat))"
proof -
  have l: "(y + k) div k = y div k + 1" using k by (simp add: div_add_self2)
  have "(y + (k - 1)) div k = (y div k * k + (y mod k + (k - 1))) div k"
    by (metis add.assoc div_mult_mod_eq)
  also have "\<dots> = y div k + (y mod k + (k - 1)) div k"
    using k by (intro div_mult_self3) simp
  finally have r: "(y + (k - 1)) div k = y div k + (y mod k + (k - 1)) div k" .
  have "(y mod k + (k - 1)) div k = (if y mod k = 0 then 0 else 1)"
  proof (cases "y mod k = 0")
    case False
    then have "y mod k + (k - 1) = k + (y mod k - 1)" and "y mod k - 1 < k"
      using k mod_less_divisor [of k y] by linarith+
    moreover have "(k + r) div k = 1" if "r < k" for r
      using that by (simp add: div_add_self1)
    ultimately have "(y mod k + (k - 1)) div k = 1" by metis
    with False show ?thesis by simp
  qed (use k in simp)
  with l r show ?thesis by auto
qed

lemma days_before_year_Suc:
  "days_before_year (Suc y) = days_before_year y + (if leap y then 366 else 365)"
proof -
  have i: "y mod 100 = 0 \<Longrightarrow> y mod 4 = 0"
    using mod_mod_cancel [of 4 100 y] by simp
  have j: "y mod 400 = 0 \<Longrightarrow> y mod 100 = 0"
    using mod_mod_cancel [of 100 400 y] by simp
  have a: "(Suc y + 3) div 4 = (y + 3) div 4 + (if y mod 4 = 0 then 1 else 0)"
    using div_shift [of 4 y] by simp
  have b: "(Suc y + 99) div 100 = (y + 99) div 100 + (if y mod 100 = 0 then 1 else 0)"
    using div_shift [of 100 y] by simp
  have c: "(Suc y + 399) div 400 = (y + 399) div 400 + (if y mod 400 = 0 then 1 else 0)"
    using div_shift [of 400 y] by simp
  show ?thesis
    unfolding days_before_year_def a b c leap_def
    using i j by (cases "y mod 4 = 0"; cases "y mod 100 = 0"; cases "y mod 400 = 0") simp_all
qed

lemma days_before_year_length:
  "days_before_month y 12 + days_in y 12 = (if leap y then 366 else 365)"
  by (simp add: numeral_eq_Suc days_in_def)

lemma day_number_next: "valid_civil c \<Longrightarrow> day_number (next_day c) = day_number c + 1"
proof (cases "cday c < days_in (cyear c) (cmonth c)")
  case True
  then show ?thesis by (simp add: next_day_def day_number_def)
next
  case False
  assume v: "valid_civil c"
  with False have d: "cday c = days_in (cyear c) (cmonth c)"
    by (auto simp: valid_civil_def)
  show ?thesis
  proof (cases "cmonth c < 12")
    case True
    with False v d show ?thesis by (auto simp: next_day_def day_number_def valid_civil_def)
  next
    case m: False
    with v have "cmonth c = 12" by (auto simp: valid_civil_def)
    with False d days_before_year_length [of "cyear c"] show ?thesis
      by (simp add: next_day_def day_number_def days_before_year_Suc)
  qed
qed

lemma add_days_valid: "valid_civil c \<Longrightarrow> valid_civil (add_days_civil n c)"
  by (induction n arbitrary: c) (auto intro: valid_next_day)

lemma add_days_number: "valid_civil c \<Longrightarrow> day_number (add_days_civil n c) = day_number c + int n"
  by (induction n arbitrary: c) (auto simp: valid_next_day day_number_next)

lemma parse_date_valid: "parse_date s = Some c \<Longrightarrow> valid_civil c"
  by (auto simp: parse_date_def Let_def split: if_splits option.splits)

section \<open>The order of rendered dates\<close>

text \<open>Chronological order, compared field by field.\<close>

definition civil_less :: "civil \<Rightarrow> civil \<Rightarrow> bool" where
  "civil_less a b \<longleftrightarrow> cyear a < cyear b \<or> cyear a = cyear b \<and>
     (cmonth a < cmonth b \<or> cmonth a = cmonth b \<and> cday a < cday b)"

lemma civil_less_next: "valid_civil c \<Longrightarrow> civil_less c (next_day c)"
  by (auto simp: civil_less_def next_day_def valid_civil_def)

lemma civil_less_trans: "civil_less a b \<Longrightarrow> civil_less b c \<Longrightarrow> civil_less a c"
  by (auto simp: civil_less_def)

lemma add_days_less: "valid_civil c \<Longrightarrow> 0 < n \<Longrightarrow> civil_less c (add_days_civil n c)"
proof (induction n arbitrary: c)
  case (Suc n)
  have nx: "civil_less c (next_day c)" using Suc.prems(1) by (rule civil_less_next)
  show ?case
  proof (cases n)
    case 0
    with nx show ?thesis by simp
  next
    case (Suc k)
    with Suc.IH [of "next_day c"] Suc.prems(1) have "civil_less (next_day c) (add_days_civil n (next_day c))"
      by (simp add: valid_next_day)
    with nx show ?thesis by (auto intro: civil_less_trans)
  qed
qed simp

text \<open>Digit strings of one length compare as the numbers they denote.\<close>

lemma digit_val_less: "digit_val c = Some d \<Longrightarrow> d < 10"
  by (auto simp: digit_val_def Let_def split: if_splits)

lemma digit_val_order:
  assumes "digit_val c = Some d" "digit_val c' = Some d'"
  shows "c < c' \<longleftrightarrow> d < d'" and "c = c' \<longleftrightarrow> d = d'"
proof -
  have n: "of_char c = d + 48" "of_char c' = d' + 48"
    using assms by (auto simp: digit_val_def Let_def split: if_splits)
  then show "c < c' \<longleftrightarrow> d < d'" by (simp add: less_char_def)
  from n show "c = c' \<longleftrightarrow> d = d'"
    by (metis add_right_cancel char_of_char)
qed

lemma digits_order:
  "length xs = length ys \<Longrightarrow> digits_val m xs = Some a \<Longrightarrow> digits_val n ys = Some b \<Longrightarrow>
    (m < n \<or> m = n \<and> xs < ys) \<longleftrightarrow> a < b"
proof (induction xs ys arbitrary: m n rule: list_induct2)
  case (Cons x xs y ys)
  from Cons.prems obtain d e where de: "digit_val x = Some d" "digit_val y = Some e"
    and r: "digits_val (10 * m + d) xs = Some a" "digits_val (10 * n + e) ys = Some b"
    by (auto split: option.splits)
  have l: "d < 10" "e < 10" using de digit_val_less by blast+
  have "m < n \<or> m = n \<and> (x < y \<or> x = y \<and> xs < ys) \<longleftrightarrow>
      10 * m + d < 10 * n + e \<or> 10 * m + d = 10 * n + e \<and> xs < ys"
    using l digit_val_order [OF de] by auto
  with Cons.IH [OF r] show ?case by simp
qed simp

lemma less_append_same_length:
  fixes xs ys us vs :: string
  shows "length xs = length ys \<Longrightarrow> xs @ us < ys @ vs \<longleftrightarrow> xs < ys \<or> xs = ys \<and> us < vs"
  by (induction xs ys rule: list_induct2) auto

lemma length_nat_str: "n < 10 ^ Suc w \<Longrightarrow> length (nat_str n) \<le> Suc w"
proof (induction w arbitrary: n)
  case 0
  then show ?case by (simp add: nat_str.simps [of n])
next
  case (Suc w)
  show ?case
  proof (cases "n < 10")
    case True
    then show ?thesis by (simp add: nat_str.simps [of n])
  next
    case False
    from Suc.prems have "n div 10 < 10 ^ Suc w"
      by (simp add: less_mult_imp_div_less mult.commute)
    with Suc.IH [of "n div 10"] False show ?thesis by (simp add: nat_str.simps [of n])
  qed
qed

lemma length_padded: "n < 10 ^ Suc w \<Longrightarrow> length (pad_left (Suc w) (nat_str n)) = Suc w"
  using length_nat_str [of n w] by (simp add: pad_left_def)

lemma padded_order:
  assumes "m < 10 ^ Suc w" "n < 10 ^ Suc w"
  shows "pad_left (Suc w) (nat_str m) < pad_left (Suc w) (nat_str n) \<longleftrightarrow> m < n"
    and "pad_left (Suc w) (nat_str m) = pad_left (Suc w) (nat_str n) \<longleftrightarrow> m = n"
proof -
  have v: "digits_val 0 (pad_left (Suc w) (nat_str k)) = Some k" for k
    by (simp add: pad_left_val digits_val_nat_str)
  show "pad_left (Suc w) (nat_str m) < pad_left (Suc w) (nat_str n) \<longleftrightarrow> m < n"
    using digits_order [of _ _ 0 m 0 n, OF _ v v] length_padded assms by simp
  show "pad_left (Suc w) (nat_str m) = pad_left (Suc w) (nat_str n) \<longleftrightarrow> m = n"
    using v by (metis option.inject)
qed

lemma format_date_less:
  assumes "valid_civil a" "valid_civil b" "cyear a < 10000" "cyear b < 10000"
  shows "format_date a < format_date b \<longleftrightarrow> civil_less a b"
proof -
  have v: "cmonth a < 10 ^ Suc 1" "cmonth b < 10 ^ Suc 1" "cday a < 10 ^ Suc 1" "cday b < 10 ^ Suc 1"
    using assms(1,2) days_in_pos(2) [of "cyear a" "cmonth a"] days_in_pos(2) [of "cyear b" "cmonth b"]
    by (auto simp: valid_civil_def)
  have y: "cyear a < 10 ^ Suc 3" "cyear b < 10 ^ Suc 3" using assms(3,4) by simp_all
  have w: "(4::nat) = Suc 3" "(2::nat) = Suc 1" by simp_all
  show ?thesis
    unfolding format_date_def civil_less_def w
    using v y by (simp only: less_append_same_length length_padded padded_order append_Cons
        append_Nil Cons_less_Cons) auto
qed

lemma add_days_not_before:
  assumes "valid_civil c" "cyear (add_days_civil n c) < 10000"
  shows "\<not> format_date (add_days_civil n c) < format_date c"
proof (cases "n = 0")
  case False
  then have l: "civil_less c (add_days_civil n c)" using add_days_less [OF assms(1)] by simp
  then have "cyear c < 10000" using assms(2) by (auto simp: civil_less_def)
  with l assms show ?thesis
    using format_date_less [of c "add_days_civil n c"] add_days_valid [OF assms(1), of n]
    by (metis order.asym)
qed simp

text \<open>Rendering then parsing gives the date back, and the other way round.\<close>

lemma parse_format_date:
  assumes "valid_civil c" "cyear c < 10000"
  shows "parse_date (format_date c) = Some c"
proof -
  have v: "cmonth c < 10 ^ Suc 1" "cday c < 10 ^ Suc 1"
    using assms(1) days_in_pos(2) [of "cyear c" "cmonth c"] by (auto simp: valid_civil_def)
  have y: "cyear c < 10 ^ Suc 3" using assms(2) by simp
  define ys where "ys = pad_left 4 (nat_str (cyear c))"
  define ms where "ms = pad_left 2 (nat_str (cmonth c))"
  define ds where "ds = pad_left 2 (nat_str (cday c))"
  have l: "length ys = 4" "length ms = 2" "length ds = 2"
    unfolding ys_def ms_def ds_def
    using length_padded [OF y] length_padded [OF v(1)] length_padded [OF v(2)]
    by (simp_all add: numeral_2_eq_2)
  have n: "parse_nat ys = Some (cyear c)" "parse_nat ms = Some (cmonth c)" "parse_nat ds = Some (cday c)"
    using l unfolding parse_nat_def
    by (auto simp: ys_def ms_def ds_def pad_left_val digits_val_nat_str)
  show ?thesis
    unfolding parse_date_def format_date_def ys_def [symmetric] ms_def [symmetric] ds_def [symmetric]
    using l n assms(1) by (cases c) (simp add: nth_append Let_def)
qed

end
