(* ===== verification/Money.thy ===== *)
theory Money
  imports Prelude
begin

text \<open>
  Amounts in minor units and quantities in thousandths (\<open>internal/accounting/money.go\<close>). Both
  are \<open>int64\<close>: every operation wraps. The conversions from and to floating point
  (\<open>FromFloat\<close>, \<open>Float\<close>, \<open>MilliFromFloat\<close>) are not modelled.
\<close>

section \<open>Arithmetic\<close>

definition rem64 :: "int \<Rightarrow> int \<Rightarrow> int" where "rem64 a b = a smod b"

definition abs64 :: "int \<Rightarrow> int" where "abs64 v = (if v < 0 then neg64 v else v)"

definition extend :: "int \<Rightarrow> int \<Rightarrow> int" where
  "extend q unit =
     (let n = mul64 q unit in if n < 0 then quo64 (sub64 n 500) 1000 else quo64 (add64 n 500) 1000)"

definition vat :: "int \<Rightarrow> int \<Rightarrow> int" where
  "vat net rate_bp =
     (let n = mul64 net rate_bp in if n < 0 then quo64 (sub64 n 5000) 10000 else quo64 (add64 n 5000) 10000)"

section \<open>Text\<close>

text \<open>\<open>%d\<close> and \<open>%0*d\<close>: the sign counts towards the width.\<close>

definition fmt_padded :: "nat \<Rightarrow> int \<Rightarrow> string" where
  "fmt_padded w i = (if i < 0 then CHR ''-'' # pad_left (w - 1) (nat_str (nat (- i))) else pad_left w (nat_str (nat i)))"

definition money_string :: "int \<Rightarrow> string" where
  "money_string m0 =
     (let neg = m0 < 0;
          m = (if neg then neg64 m0 else m0);
          s = int_str (quo64 m 100) @ ''.'' @ fmt_padded 2 (rem64 m 100)
      in if neg then ''-'' @ s else s)"

text \<open>\<open>strconv.ParseInt(s, 10, 64)\<close>: an optional sign, at least one digit, in range.\<close>

definition parse_int64 :: "string \<Rightarrow> int option" where
  "parse_int64 s =
     (let neg = has_prefix s ''-'';
          digits = (if neg \<or> has_prefix s ''+'' then drop 1 s else s)
      in case parse_nat digits of
           None \<Rightarrow> None
         | Some n \<Rightarrow> (let v = (if neg then - int n else int n) in if in64 v then Some v else None))"

datatype money_error = NotAnAmount | TooManyDecimals

text \<open>\<open>strings.Cut\<close> at the first dot.\<close>

definition cut_dot :: "string \<Rightarrow> string \<times> string option" where
  "cut_dot s = (let w = takeWhile (\<lambda>c. c \<noteq> CHR ''.'') s
                in (w, if length w = length s then None else Some (drop (length w + 1) s)))"

definition parse_money :: "string \<Rightarrow> money_error + int" where
  "parse_money s0 =
     (let s = filter (\<lambda>c. c \<noteq> CHR '' '') (filter (\<lambda>c. c \<noteq> CHR '','') (trim_space s0)) in
      if s = '''' then Inr 0
      else
        let neg = has_prefix s ''-'';
            body = trim_prefix (trim_prefix s ''-'') ''+'';
            (whole0, frac) = cut_dot body;
            whole = (if whole0 = '''' then ''0'' else whole0)
        in case parse_int64 whole of
             None \<Rightarrow> Inl NotAnAmount
           | Some w \<Rightarrow>
               (case (case frac of
                        None \<Rightarrow> Inr 0
                      | Some f \<Rightarrow>
                          (if length f = 0 then Inr 0
                           else if length f = 1
                             then (case parse_int64 f of None \<Rightarrow> Inl NotAnAmount | Some v \<Rightarrow> Inr (mul64 v 10))
                           else if length f = 2
                             then (case parse_int64 f of None \<Rightarrow> Inl NotAnAmount | Some v \<Rightarrow> Inr v)
                           else Inl TooManyDecimals)) of
                  Inl e \<Rightarrow> Inl e
                | Inr cents \<Rightarrow>
                    let total = add64 (mul64 w 100) cents
                    in Inr (if neg then neg64 total else total)))"

definition trim_right_zeros :: "string \<Rightarrow> string" where
  "trim_right_zeros s = rev (dropWhile (\<lambda>c. c = CHR ''0'') (rev s))"

definition milli_string :: "int \<Rightarrow> string" where
  "milli_string q =
     (let s = trim_right_zeros (int_str (quo64 q 1000) @ ''.'' @ fmt_padded 3 (rem64 (abs64 q) 1000))
      in if has_suffix s ''.'' then butlast s else s)"

section \<open>Rounding\<close>

lemma sdiv_nonneg: "0 \<le> a \<Longrightarrow> 0 < b \<Longrightarrow> a sdiv b = a div (b::int)"
  by (simp add: signed_divide_int_def sgn_if)

lemma sdiv_neg: "a < 0 \<Longrightarrow> 0 < b \<Longrightarrow> a sdiv b = - ((- a) div (b::int))"
  by (simp add: signed_divide_int_def sgn_if)

lemma div_le_int: "0 \<le> a \<Longrightarrow> 0 < b \<Longrightarrow> a div b \<le> (a::int)"
  using zdiv_mono2 [of a 1 b] by simp

lemma in64_div: "in64 a \<Longrightarrow> 0 \<le> a \<Longrightarrow> 0 < b \<Longrightarrow> in64 (a div b)"
proof -
  assume "in64 a" "0 \<le> a" "0 < b"
  moreover then have "a div b \<le> a" "0 \<le> a div b"
    by (simp_all add: div_le_int pos_imp_zdiv_nonneg_iff)
  ultimately show ?thesis by (simp add: in64_def)
qed

text \<open>Half away from zero: the result, times the divisor, is within half a divisor of the product,
  and a tie goes away from zero.\<close>

definition rounded :: "int \<Rightarrow> int \<Rightarrow> int \<Rightarrow> bool" where
  "rounded n k r \<longleftrightarrow> 2 * \<bar>k * r - n\<bar> \<le> k \<and> (2 * \<bar>k * r - n\<bar> = k \<longrightarrow> \<bar>n\<bar> < \<bar>k * r\<bar>)"

lemma div_half:
  fixes n k h :: int
  assumes n: "0 \<le> n" and k: "k = 2 * h" "0 < h"
  shows "rounded n k ((n + h) div k)"
proof -
  define r where "r = (n + h) div k"
  have "k * r + (n + h) mod k = n + h" unfolding r_def by (rule mult_div_mod_eq)
  moreover have "0 \<le> (n + h) mod k" "(n + h) mod k < k" using k by simp_all
  ultimately have a: "k * r \<le> n + h" "n + h < k * r + k" by linarith+
  then have "\<bar>k * r - n\<bar> \<le> h" using k by linarith
  moreover have "\<bar>k * r - n\<bar> = h \<Longrightarrow> \<bar>n\<bar> < \<bar>k * r\<bar>" using a n k by linarith
  ultimately show ?thesis using k by (simp add: rounded_def r_def)
qed

lemma rounded_minus: "rounded n k r \<Longrightarrow> rounded (- n) k (- r)"
  by (simp add: rounded_def abs_minus_commute)

lemma quo64_half:
  assumes n: "in64 n" and k: "k = 2 * h" "0 < h" "in64 (n + h)" "in64 (n - h)"
  shows "rounded n k (if n < 0 then quo64 (sub64 n h) k else quo64 (add64 n h) k)"
proof (cases "n < 0")
  case True
  have q: "quo64 (sub64 n h) k = - ((- n + h) div k)"
  proof -
    have "sub64 n h = n - h" using k by (simp add: sub64_def wrap64_id)
    moreover have "(n - h) sdiv k = - ((- n + h) div k)"
      using sdiv_neg [of "n - h" k] True k by simp
    moreover have "in64 (- ((- n + h) div k))"
    proof -
      have "0 \<le> (- n + h) div k" using True k by (simp add: pos_imp_zdiv_nonneg_iff)
      moreover have "(- n + h) div k \<le> - n + h" using True k by (intro div_le_int) simp_all
      ultimately show ?thesis using k(4) by (simp add: in64_def)
    qed
    ultimately show ?thesis by (simp add: quo64_def wrap64_id)
  qed
  have "rounded (- n) k ((- n + h) div k)" using True k by (intro div_half) simp_all
  from rounded_minus [OF this] True q show ?thesis by simp
next
  case False
  have "add64 n h = n + h" using k by (simp add: add64_def wrap64_id)
  moreover have "in64 ((n + h) div k)" using False k by (intro in64_div) simp_all
  ultimately have "quo64 (add64 n h) k = (n + h) div k"
    using False k sdiv_nonneg [of "n + h" k] by (simp add: quo64_def wrap64_id)
  with False k show ?thesis by (simp add: div_half)
qed

section \<open>Printing and reading\<close>

lemma lead_space_printable:
  assumes "33 \<le> (of_char c :: nat)" "(of_char c :: nat) \<le> 126"
  shows "lead_space space_runes (c # cs) = 0" and "lead_space (List.map rev space_runes) (c # cs) = 0"
proof -
  define odd_lead where "odd_lead = (\<lambda>p. p \<noteq> [] \<and> ((of_char (hd p) :: nat) < 33 \<or> 126 < (of_char (hd p) :: nat)))"
  have none: "lead_space ps (c # cs) = 0" if "list_all odd_lead ps" for ps
  proof -
    have "\<not> has_prefix (c # cs) p" if "p \<in> set ps" for p
    proof -
      have "odd_lead p" using \<open>list_all odd_lead ps\<close> that by (simp add: list_all_iff)
      with assms show ?thesis by (cases p) (auto simp: odd_lead_def)
    qed
    then have "filter (has_prefix (c # cs)) ps = []" by (simp add: filter_empty_conv)
    then show ?thesis by (simp add: lead_space_def)
  qed
  show "lead_space space_runes (c # cs) = 0" by (rule none) (simp add: space_runes_def odd_lead_def)
  show "lead_space (List.map rev space_runes) (c # cs) = 0" by (rule none) (simp add: space_runes_def odd_lead_def)
qed

definition printable :: "string \<Rightarrow> bool" where
  "printable s \<longleftrightarrow> (\<forall>c \<in> set s. 33 \<le> (of_char c :: nat) \<and> (of_char c :: nat) \<le> 126)"

lemma lead_space_all_printable:
  assumes "printable s"
  shows "lead_space space_runes s = 0" and "lead_space (List.map rev space_runes) s = 0"
  using assms lead_space_printable by (cases s; simp add: printable_def)+

lemma trim_space_printable:
  assumes "printable s"
  shows "trim_space s = s"
proof -
  have "printable (rev s)" using assms by (simp add: printable_def)
  then have "trim_left_by (List.map rev space_runes) (rev s) = rev s"
    by (rule trim_left_by_stop [OF lead_space_all_printable(2)])
  moreover have "trim_left_by space_runes s = s"
    by (rule trim_left_by_stop [OF lead_space_all_printable(1) [OF assms]])
  ultimately show ?thesis by (simp add: trim_space_def)
qed

lemma of_char_digit: "d < 10 \<Longrightarrow> (of_char (char_of (48 + d) :: char) :: nat) = 48 + d"
  by simp

lemma nat_str_digits: "c \<in> set (nat_str n) \<Longrightarrow> 48 \<le> (of_char c :: nat) \<and> (of_char c :: nat) \<le> 57"
proof (induction n rule: nat_str.induct)
  case (1 n)
  show ?case
  proof (cases "n < 10")
    case True
    with 1(2) show ?thesis by (simp add: nat_str.simps [of n] of_char_digit)
  next
    case False
    with 1(2) have "c \<in> set (nat_str (n div 10)) \<or> c = char_of (48 + n mod 10)"
      by (auto simp: nat_str.simps [of n])
    with 1(1) [OF False] show ?thesis by (auto simp: of_char_digit)
  qed
qed

lemma nat_str_two: "n < 100 \<Longrightarrow> length (pad_left 2 (nat_str n)) = 2"
  by (auto simp: pad_left_def nat_str.simps [of n] nat_str.simps [of "n div 10"])

lemma parse_nat_padded: "parse_nat (pad_left w (nat_str n)) = Some n"
  by (simp add: parse_nat_def pad_left_val digits_val_nat_str) (simp add: pad_left_def)

lemma padded_digits: "c \<in> set (pad_left w (nat_str n)) \<Longrightarrow> 48 \<le> (of_char c :: nat) \<and> (of_char c :: nat) \<le> 57"
  by (auto simp: pad_left_def dest: nat_str_digits split: if_splits)

lemma parse_int64_digits:
  assumes "\<forall>c \<in> set s. 48 \<le> (of_char c :: nat)" "parse_nat s = Some n" "in64 (int n)"
  shows "parse_int64 s = Some (int n)"
proof (cases s)
  case (Cons c cs)
  with assms(1) have "c \<noteq> CHR ''-''" "c \<noteq> CHR ''+''" by auto
  with assms Cons show ?thesis by (simp add: parse_int64_def Let_def)
qed (use assms in \<open>simp add: parse_nat_def\<close>)

lemma cut_dot_digits:
  assumes "\<forall>c \<in> set w. 48 \<le> (of_char c :: nat)"
  shows "cut_dot (w @ CHR ''.'' # f) = (w, Some f)"
proof -
  have "takeWhile (\<lambda>c. c \<noteq> CHR ''.'') (w @ CHR ''.'' # f) = w"
    using assms by (induction w) auto
  then show ?thesis by (simp add: cut_dot_def Let_def)
qed

text \<open>Reading \<open>w.ff\<close>, with or without a minus sign.\<close>

lemma parse_money_printed:
  assumes r: "r < 100" and w: "in64 (int w * 100 + int r)"
  shows "parse_money (nat_str w @ ''.'' @ pad_left 2 (nat_str r)) = Inr (int w * 100 + int r)"
    and "parse_money (''-'' @ nat_str w @ ''.'' @ pad_left 2 (nat_str r)) = Inr (neg64 (int w * 100 + int r))"
proof -
  define b where "b = nat_str w @ CHR ''.'' # pad_left 2 (nat_str r)"
  have dig: "\<forall>c \<in> set (nat_str w). 48 \<le> (of_char c :: nat)" "\<forall>c \<in> set (pad_left 2 (nat_str r)). 48 \<le> (of_char c :: nat)"
    by (auto dest: nat_str_digits padded_digits)
  have chars: "\<forall>c \<in> set b. c = CHR ''.'' \<or> 48 \<le> (of_char c :: nat) \<and> (of_char c :: nat) \<le> 57"
    by (auto simp: b_def dest: nat_str_digits padded_digits)
  have pb: "33 \<le> (of_char c :: nat) \<and> (of_char c :: nat) \<le> 126" if "c \<in> set b" for c
  proof (cases "c = CHR ''.''")
    case False
    with chars that have "48 \<le> (of_char c :: nat) \<and> (of_char c :: nat) \<le> 57" by blast
    then show ?thesis by simp
  qed simp
  then have pr: "printable b" by (simp add: printable_def)
  with pb have pr': "printable (CHR ''-'' # b)" by (simp add: printable_def)
  have keep: "filter (\<lambda>c. c \<noteq> CHR '' '') (filter (\<lambda>c. c \<noteq> CHR '','') b) = b"
  proof -
    have "c \<noteq> CHR '','' \<and> c \<noteq> CHR '' ''" if "c \<in> set b" for c
    proof (cases "c = CHR ''.''")
      case False
      with chars that have "48 \<le> (of_char c :: nat)" by blast
      then show ?thesis by (intro conjI notI) simp_all
    qed simp
    then show ?thesis by (simp add: filter_id_conv)
  qed
  have b0: "\<not> has_prefix b ''-''" "\<not> has_prefix b ''+''" "b \<noteq> ''''"
  proof -
    obtain c cs where c: "nat_str w = c # cs" by (cases "nat_str w") simp_all
    with dig(1) have "48 \<le> (of_char c :: nat)" by simp
    then have "c \<noteq> CHR ''-''" "c \<noteq> CHR ''+''" by auto
    with c show "\<not> has_prefix b ''-''" "\<not> has_prefix b ''+''" "b \<noteq> ''''" by (simp_all add: b_def)
  qed
  have w64: "in64 (int w)" using w by (simp add: in64_def)
  have pw: "parse_int64 (nat_str w) = Some (int w)"
    using parse_int64_digits [OF dig(1)] w64 by simp
  have pf: "parse_int64 (pad_left 2 (nat_str r)) = Some (int r)"
    using parse_int64_digits [OF dig(2) parse_nat_padded] r by (simp add: in64_def)
  have tot: "add64 (mul64 (int w) 100) (int r) = int w * 100 + int r"
    using w by (simp add: add64_def mul64_def wrap64_add_left wrap64_id)
  have cd: "cut_dot b = (nat_str w, Some (pad_left 2 (nat_str r)))"
    using cut_dot_digits [OF dig(1)] by (simp add: b_def)
  have tp: "trim_prefix (trim_prefix b ''-'') ''+'' = b" using b0 by (simp add: trim_prefix_def)
  have len: "length (pad_left 2 (nat_str r)) = 2" using r by (rule nat_str_two)
  show "parse_money (nat_str w @ ''.'' @ pad_left 2 (nat_str r)) = Inr (int w * 100 + int r)"
    using b0 pw pf tot cd tp len keep trim_space_printable [OF pr]
    by (simp add: parse_money_def b_def [symmetric] Let_def)
  have tp': "trim_prefix (trim_prefix (CHR ''-'' # b) ''-'') ''+'' = b" using b0 by (simp add: trim_prefix_def)
  show "parse_money (''-'' @ nat_str w @ ''.'' @ pad_left 2 (nat_str r)) = Inr (neg64 (int w * 100 + int r))"
    using pw pf tot cd tp' len keep trim_space_printable [OF pr']
    by (simp add: parse_money_def b_def [symmetric] Let_def)
qed

lemma money_string_nonneg:
  assumes "0 \<le> m" "in64 m"
  shows "int_str (quo64 m 100) @ ''.'' @ fmt_padded 2 (rem64 m 100) =
    nat_str (nat m div 100) @ ''.'' @ pad_left 2 (nat_str (nat m mod 100))"
proof -
  have "quo64 m 100 = m div 100"
    using assms in64_div [of m 100] by (simp add: quo64_def sdiv_nonneg wrap64_id)
  moreover have "rem64 m 100 = m mod 100"
    using assms by (cases "m = 0") (simp_all add: rem64_def signed_modulo_int_def)
  moreover have "\<not> m div 100 < 0" "\<not> m mod 100 < 0" using assms by (simp_all add: not_less pos_imp_zdiv_nonneg_iff)
  ultimately show ?thesis
    using assms unfolding int_str_def fmt_padded_def by (simp add: nat_div_distrib nat_mod_distrib)
qed

section \<open>Properties\<close>

text \<open>C37: Every amount except the most negative \<open>int64\<close> reads back from its printed form.\<close>

theorem money_string_roundtrip:
  assumes "in64 m" "m \<noteq> - (2 ^ 63)"
  shows "parse_money (money_string m) = Inr m"
proof -
  have main: "parse_money (nat_str (nat k div 100) @ ''.'' @ pad_left 2 (nat_str (nat k mod 100))) = Inr k \<and>
      parse_money (''-'' @ nat_str (nat k div 100) @ ''.'' @ pad_left 2 (nat_str (nat k mod 100))) = Inr (neg64 k)"
    if "0 \<le> k" "in64 k" for k
  proof -
    have "int (nat k div 100 * 100 + nat k mod 100) = k" using that by simp
    then have e: "int (nat k div 100) * 100 + int (nat k mod 100) = k"
      by (simp only: of_nat_add of_nat_mult of_nat_numeral)
    with that parse_money_printed [of "nat k mod 100" "nat k div 100"] show ?thesis by simp
  qed
  show ?thesis
  proof (cases "m < 0")
    case True
    then have k: "0 \<le> - m" "in64 (- m)" "neg64 m = - m" "neg64 (- m) = m"
      using assms by (auto simp: in64_def neg64_def wrap64_id)
    have "money_string m = ''-'' @ nat_str (nat (- m) div 100) @ ''.'' @ pad_left 2 (nat_str (nat (- m) mod 100))"
      using True k(3) money_string_nonneg [OF k(1,2)] by (simp add: money_string_def Let_def)
    with main [OF k(1,2)] k(4) show ?thesis by simp
  next
    case False
    then have "0 \<le> m" by simp
    with main [OF this assms(1)] money_string_nonneg [OF this assms(1)] False show ?thesis
      by (simp add: money_string_def)
  qed
qed

lemma money_string_roundtrip_witness: "parse_money (money_string (-123456)) = Inr (-123456)"
  by (rule money_string_roundtrip) (simp_all add: in64_def)

text \<open>C38: As long as the product and its rounding step stay within \<open>int64\<close>, extending a quantity by a
  price and computing VAT both round to the nearest minor unit, halves away from zero.\<close>

theorem extend_and_vat_round:
  assumes "\<bar>a * b\<bar> < 2 ^ 63 - 5000"
  shows "rounded (a * b) 1000 (extend a b) \<and> rounded (a * b) 10000 (vat a b)"
proof -
  have i: "in64 (a * b)" "in64 (a * b + 500)" "in64 (a * b - 500)" "in64 (a * b + 5000)" "in64 (a * b - 5000)"
    using assms by (auto simp: in64_def abs_less_iff)
  show ?thesis
    using quo64_half [OF i(1), of 1000 500] quo64_half [OF i(1), of 10000 5000] i
    by (simp add: extend_def vat_def mul64_def wrap64_id Let_def)
qed

lemma extend_and_vat_round_witness: "rounded (333 * 10000) 1000 (extend 333 10000) \<and> rounded (333 * 10000) 10000 (vat 333 10000)"
  by (rule extend_and_vat_round) simp


end
