(* ===== verification/AcctDb.thy ===== *)
theory AcctDb
  imports GoDate Money "HOL-Library.Product_Lexorder"
begin

text \<open>
  The accounting module's data (\<open>internal/accounting/model.go\<close> and the record types of
  \<open>invoice.go\<close>, \<open>payment.go\<close>, \<open>expense.go\<close>, \<open>funding.go\<close>) and the tables
  of migrations 0005 and 0006 it lives in. A table is the list of its rows in insertion order with its
  \<open>AUTOINCREMENT\<close> counter. A header row (entry, invoice) is kept with an empty list of lines;
  reading it fills them in from the line table, as the code does. Columns that SQL leaves NULL for
  an id of 0 are kept as 0.
\<close>

section \<open>Vocabulary\<close>

type_synonym money = int

text \<open>The five account types and the other closed vocabularies are Go string types: a value may be
  anything until \<open>valid\<close> or a CHECK has looked at it.\<close>

definition t_asset :: string where "t_asset = ''asset''"

definition t_liability :: string where "t_liability = ''liability''"

definition t_equity :: string where "t_equity = ''equity''"

definition t_income :: string where "t_income = ''income''"

definition t_expense :: string where "t_expense = ''expense''"

lemma account_types_distinct [simp]:
  "t_asset \<noteq> t_liability" "t_asset \<noteq> t_equity" "t_asset \<noteq> t_income" "t_asset \<noteq> t_expense"
  "t_liability \<noteq> t_asset" "t_liability \<noteq> t_equity" "t_liability \<noteq> t_income" "t_liability \<noteq> t_expense"
  "t_equity \<noteq> t_asset" "t_equity \<noteq> t_liability" "t_equity \<noteq> t_income" "t_equity \<noteq> t_expense"
  "t_income \<noteq> t_asset" "t_income \<noteq> t_liability" "t_income \<noteq> t_equity" "t_income \<noteq> t_expense"
  "t_expense \<noteq> t_asset" "t_expense \<noteq> t_liability" "t_expense \<noteq> t_equity" "t_expense \<noteq> t_income"
  by (simp_all add: t_asset_def t_liability_def t_equity_def t_income_def t_expense_def)

definition account_type_valid :: "string \<Rightarrow> bool" where
  "account_type_valid t = (t \<in> {t_asset, t_liability, t_equity, t_income, t_expense})"

definition debit_normal :: "string \<Rightarrow> bool" where
  "debit_normal t = (t = t_asset \<or> t = t_expense)"

definition on_balance_sheet :: "string \<Rightarrow> bool" where
  "on_balance_sheet t = (t = t_asset \<or> t = t_liability \<or> t = t_equity)"

definition sys_bank :: string where "sys_bank = ''bank''"

definition sys_ar :: string where "sys_ar = ''ar''"

definition sys_vat_output :: string where "sys_vat_output = ''vat_output''"

definition sys_vat_input :: string where "sys_vat_input = ''vat_input''"

definition sys_sales :: string where "sys_sales = ''sales''"

definition sys_capital :: string where "sys_capital = ''capital''"

definition sys_owner_loan :: string where "sys_owner_loan = ''owner_loan''"

definition vat_standard :: string where "vat_standard = ''standard''"

definition vat_reduced :: string where "vat_reduced = ''reduced''"

definition vat_zero :: string where "vat_zero = ''zero''"

definition vat_exempt :: string where "vat_exempt = ''exempt''"

definition vat_reverse_charge :: string where "vat_reverse_charge = ''reverse_charge''"

definition vat_kind_valid :: "string \<Rightarrow> bool" where
  "vat_kind_valid k = (k \<in> {vat_standard, vat_reduced, vat_zero, vat_exempt, vat_reverse_charge})"

definition src_manual :: string where "src_manual = ''manual''"

definition src_opening :: string where "src_opening = ''opening''"

definition src_invoice :: string where "src_invoice = ''invoice''"

definition src_credit_note :: string where "src_credit_note = ''credit_note''"

definition src_payment :: string where "src_payment = ''payment''"

definition src_expense :: string where "src_expense = ''expense''"

definition src_funding :: string where "src_funding = ''funding''"

definition source_valid :: "string \<Rightarrow> bool" where
  "source_valid s = (s \<in> {src_manual, src_opening, src_invoice, src_credit_note, src_payment, src_expense, src_funding})"

lemma sources_valid [simp]:
  "source_valid src_manual" "source_valid src_invoice" "source_valid src_credit_note"
  "source_valid src_payment" "source_valid src_expense" "source_valid src_funding"
  by (simp_all add: source_valid_def)

definition st_draft :: string where "st_draft = ''draft''"

definition st_issued :: string where "st_issued = ''issued''"

definition st_part_paid :: string where "st_part_paid = ''part_paid''"

definition st_paid :: string where "st_paid = ''paid''"

definition st_void :: string where "st_void = ''void''"

lemma statuses_distinct [simp]:
  "st_draft \<noteq> st_issued" "st_draft \<noteq> st_part_paid" "st_draft \<noteq> st_paid" "st_draft \<noteq> st_void"
  "st_issued \<noteq> st_draft" "st_issued \<noteq> st_part_paid" "st_issued \<noteq> st_paid" "st_issued \<noteq> st_void"
  "st_part_paid \<noteq> st_draft" "st_part_paid \<noteq> st_issued" "st_part_paid \<noteq> st_paid" "st_part_paid \<noteq> st_void"
  "st_paid \<noteq> st_draft" "st_paid \<noteq> st_issued" "st_paid \<noteq> st_part_paid" "st_paid \<noteq> st_void"
  "st_void \<noteq> st_draft" "st_void \<noteq> st_issued" "st_void \<noteq> st_part_paid" "st_void \<noteq> st_paid"
  by (simp_all add: st_draft_def st_issued_def st_part_paid_def st_paid_def st_void_def)

definition editable :: "string \<Rightarrow> bool" where "editable s = (s = st_draft)"

definition kind_invoice :: string where "kind_invoice = ''invoice''"

definition kind_credit_note :: string where "kind_credit_note = ''credit_note''"

lemma kinds_distinct [simp]: "kind_invoice \<noteq> kind_credit_note" "kind_credit_note \<noteq> kind_invoice"
  by (simp_all add: kind_invoice_def kind_credit_note_def)

definition fund_capital :: string where "fund_capital = ''capital''"

definition fund_loan :: string where "fund_loan = ''loan''"

definition fund_repayment :: string where "fund_repayment = ''repayment''"

definition funding_kind_valid :: "string \<Rightarrow> bool" where
  "funding_kind_valid k = (k \<in> {fund_capital, fund_loan, fund_repayment})"

definition moves_in :: "string \<Rightarrow> bool" where "moves_in k = (k \<noteq> fund_repayment)"

section \<open>Records\<close>

record account =
  a_id :: int
  a_code :: string
  a_name :: string
  a_type :: string
  a_parent :: int
  a_system_key :: string
  a_descr :: string
  a_archived :: bool
  a_created :: string
  a_debit_total :: money
  a_credit_total :: money
  a_balance :: money

record vat_rate =
  r_id :: int
  r_code :: string
  r_name :: string
  r_bp :: int
  r_kind :: string
  r_archived :: bool

record journal_line =
  l_id :: int
  l_entry :: int
  l_account :: int
  l_debit :: money
  l_credit :: money
  l_descr :: string
  l_ordinal :: int
  l_account_code :: string
  l_account_name :: string
  l_account_type :: string

record entry =
  e_id :: int
  e_date :: string
  e_memo :: string
  e_source :: string
  e_source_id :: int
  e_reverses :: int
  e_created :: string
  e_lines :: "journal_line list"

record period =
  p_id :: int
  p_starts :: string
  p_ends :: string
  p_locked :: bool
  p_locked_at :: string
  p_note :: string

record settings =
  s_currency :: string
  s_symbol :: string
  s_terms_days :: int
  s_vat_rate :: int
  s_fiscal_month :: int
  s_updated :: string

record posting =
  o_account :: int
  o_debit :: money
  o_credit :: money
  o_descr :: string

definition debit :: "int \<Rightarrow> money \<Rightarrow> string \<Rightarrow> posting" where
  "debit acct amount desc = \<lparr>o_account = acct, o_debit = amount, o_credit = 0, o_descr = desc\<rparr>"

definition credit :: "int \<Rightarrow> money \<Rightarrow> string \<Rightarrow> posting" where
  "credit acct amount desc = \<lparr>o_account = acct, o_debit = 0, o_credit = amount, o_descr = desc\<rparr>"

record invoice_line =
  il_id :: int
  il_invoice :: int
  il_descr :: string
  il_quantity :: int
  il_price :: money
  il_net :: money
  il_vat_rate :: int
  il_vat_bp :: int
  il_vat :: money
  il_income :: int
  il_time_entry :: int
  il_expense :: int
  il_ordinal :: int

record invoice =
  i_id :: int
  i_kind :: string
  i_number :: string
  i_client :: int
  i_engagement :: int
  i_status :: string
  i_issue_date :: string
  i_due_date :: string
  i_terms :: int
  i_subtotal :: money
  i_vat :: money
  i_total :: money
  i_paid :: money
  i_reverse :: bool
  i_customer_vat :: string
  i_bill_to :: string
  i_notes :: string
  i_corrects :: int
  i_entry :: int
  i_created :: string
  i_issued_at :: string
  i_lines :: "invoice_line list"
  i_client_name :: string
  i_engagement_name :: string

record payment =
  y_id :: int
  y_invoice :: int
  y_paid_on :: string
  y_amount :: money
  y_method :: string
  y_reference :: string
  y_deposit :: int
  y_entry :: int
  y_created :: string
  y_invoice_number :: string
  y_client_name :: string

record expense =
  x_id :: int
  x_spent_on :: string
  x_vendor :: string
  x_descr :: string
  x_account :: int
  x_paid_from :: int
  x_net :: money
  x_vat_rate :: int
  x_vat_bp :: int
  x_vat :: money
  x_total :: money
  x_reclaimable :: bool
  x_billable :: bool
  x_client :: int
  x_engagement :: int
  x_rebilled :: int
  x_receipt :: string
  x_entry :: int
  x_created :: string
  x_account_name :: string
  x_paid_from_name :: string
  x_client_name :: string

record funding =
  f_id :: int
  f_received_on :: string
  f_kind :: string
  f_amount :: money
  f_from :: string
  f_reference :: string
  f_note :: string
  f_cash :: int
  f_owner :: int
  f_entry :: int
  f_created :: string
  f_cash_name :: string
  f_owner_name :: string

record sequence =
  q_name :: string
  q_prefix :: string
  q_next :: int
  q_padding :: int

section \<open>Totals of an entry\<close>

definition entry_total :: "entry \<Rightarrow> money" where
  "entry_total e = foldl add64 0 (List.map l_debit (e_lines e))"

definition lines_balanced :: "journal_line list \<Rightarrow> bool" where
  "lines_balanced ls = (foldl add64 0 (List.map l_debit ls) = foldl add64 0 (List.map l_credit ls))"

definition balanced :: "entry \<Rightarrow> bool" where
  "balanced e = lines_balanced (e_lines e)"

section \<open>Errors\<close>

text \<open>A \<open>ValidationError\<close> is told apart by what its message says, with the message's arguments.\<close>

datatype account_fault = CodeRequired | NameRequired | BadAccountType | OwnParent
  | TypeHasPostings string string string | SystemAccountArchived string string
  | CodeTaken | SystemKeyTaken

datatype vat_fault = RateCodeRequired | RateNameRequired | BadVatKind | RateOutOfRange
  | RateNotZero string int | RateCodeTaken

datatype post_fault = DateRequired | BadDate string | UnknownSource string | TooFewLines nat
  | NegativeAmount nat | OneSide nat | NoAccount nat int | ArchivedAccount nat string string
  | NotBalanced money money money | NoValue | PeriodBackwards string string

datatype settings_fault = BadCurrency string | BadTerms | BadMonth | NoDefaultRate

datatype invoice_fault = BadInvoiceKind | NotEditable string string | NotDeletable string string
  | NoClient | DueBeforeIssue string string | NoLines | NoCustomerVat | LineDescr nat
  | LineNoAccount nat int | LineNotIncome nat string string string | LineNoRate nat int
  | AlreadyIssued string string | IssueNoLines | PostingsUnbalanced string money money
  | VoidDraft | AlreadyVoid string | VoidPaid string money | OnlyInvoiceCredited | CreditDraft
  | CreditVoid string | NoLongerDraft | NotADraft | NotDraftStatus string

datatype payment_fault = NoInvoice int | PayDraft | PayVoid string | PayPaid string | PayNotPositive
  | PayTooMuch money money string | NoDeposit int | DepositNotAsset string string string

datatype expense_fault = ExpenseUnnamed | ExpenseNotPositive | NoCategory int
  | BadCategory string string string | NoSource int | BadSource string string string
  | ExpenseNoRate int | BillableNoClient | Rebilled

datatype funding_fault = FundingKindMissing | BadFundingKind string | FundingNotPositive | NoCash int
  | CashNotAsset string string string | NoLoan string | RepayTooMuch money money string
  | NoOwnerAccount int | OwnerWrongType string string string string string | OwnerArchived string string
  | LoanRepaid money money | BadFundingFilter

datatype reason = AccountFault account_fault | VatFault vat_fault | PostFault post_fault
  | SettingsFault settings_fault | InvoiceFault invoice_fault | PaymentFault payment_fault
  | ExpenseFault expense_fault | FundingFault funding_fault
  | CheckRejected string | MissingReference string

text \<open>What the database itself refuses, when the code passes it on unchanged.\<close>

datatype db_failure = CheckFailed | ForeignKeyFailed | UniqueFailed | IntegerOverflow

datatype acct_error = NotFound | Invalid reason | Locked string period | Db db_failure

section \<open>Tables\<close>

record 'r table =
  rows :: "'r list"
  next_id :: int

definition insert_row :: "(int \<Rightarrow> 'r \<Rightarrow> 'r) \<Rightarrow> 'r \<Rightarrow> 'r table \<Rightarrow> 'r table" where
  "insert_row with_id r t = t\<lparr>rows := rows t @ [with_id (next_id t) r], next_id := next_id t + 1\<rparr>"

definition update_table :: "('r \<Rightarrow> bool) \<Rightarrow> ('r \<Rightarrow> 'r) \<Rightarrow> 'r table \<Rightarrow> 'r table" where
  "update_table p f t = t\<lparr>rows := update_rows p f (rows t)\<rparr>"

definition delete_rows :: "('r \<Rightarrow> bool) \<Rightarrow> 'r table \<Rightarrow> 'r table" where
  "delete_rows p t = t\<lparr>rows := filter (\<lambda>r. \<not> p r) (rows t)\<rparr>"

definition find_row :: "('r \<Rightarrow> int) \<Rightarrow> int \<Rightarrow> 'r table \<Rightarrow> 'r option" where
  "find_row key k t = first_row (\<lambda>r. key r = k) (rows t)"

record acct_db =
  accounts :: "account table"
  vat_rates :: "vat_rate table"
  entries :: "entry table"
  jlines :: "journal_line table"
  sequences :: "sequence list"
  invoices :: "invoice table"
  invoice_lines :: "invoice_line table"
  payments :: "payment table"
  expenses :: "expense table"
  fundings :: "funding table"
  periods :: "period table"
  settings_row :: "settings option"
  crm_clients :: "(int \<times> string) list"
  crm_engagements :: "(int \<times> string) list"
  crm_time_entries :: "(int \<times> bool) list"

text \<open>The clock: \<open>nowStamp()\<close> and \<open>today()\<close>, both of which the code's tests replace.\<close>

record clock =
  now_stamp :: string
  today :: string

text \<open>SQLite's \<open>SUM\<close> over integers: exact, and an error as soon as a partial sum leaves 64 bits.
  \<open>SUM\<close> of no rows is NULL, which every query here reads as 0.\<close>

fun sql_sum_from :: "int \<Rightarrow> int list \<Rightarrow> acct_error + int" where
  "sql_sum_from acc [] = Inr acc"
| "sql_sum_from acc (x # xs) =
     (if in64 (acc + x) then sql_sum_from (acc + x) xs else Inl (Db IntegerOverflow))"

definition sql_sum :: "int list \<Rightarrow> acct_error + int" where
  "sql_sum xs = sql_sum_from 0 xs"

text \<open>A transaction: its writes count only if its body returned no error.\<close>

definition with_tx :: "(acct_db \<Rightarrow> acct_error + ('a \<times> acct_db)) \<Rightarrow> acct_db \<Rightarrow> (acct_error + 'a) \<times> acct_db" where
  "with_tx body db = (case body db of Inl e \<Rightarrow> (Inl e, db) | Inr (x, db') \<Rightarrow> (Inr x, db'))"

section \<open>Lemmas on tables and sums\<close>

lemma sql_sum_from_exact: "sql_sum_from acc xs = Inr s \<Longrightarrow> s = acc + sum_list xs"
  by (induction xs arbitrary: acc) (fastforce split: if_splits)+

lemma sql_sum_exact: "sql_sum xs = Inr s \<Longrightarrow> s = sum_list xs"
  using sql_sum_from_exact [of 0 xs s] by (simp add: sql_sum_def)

lemma sql_sum_from_in64: "sql_sum_from acc xs = Inr s \<Longrightarrow> in64 acc \<Longrightarrow> in64 s"
  by (induction xs arbitrary: acc) (auto split: if_splits)

lemma sql_sum_in64: "sql_sum xs = Inr s \<Longrightarrow> in64 s"
  using sql_sum_from_in64 [of 0 xs s] by (simp add: sql_sum_def)

lemma rows_insert_row [simp]: "rows (insert_row f r t) = rows t @ [f (next_id t) r]"
  by (simp add: insert_row_def)

lemma next_id_insert_row [simp]: "next_id (insert_row f r t) = next_id t + 1"
  by (simp add: insert_row_def)

lemma rows_update_table [simp]: "rows (update_table p f t) = update_rows p f (rows t)"
  by (simp add: update_table_def)

lemma next_id_update_table [simp]: "next_id (update_table p f t) = next_id t"
  by (simp add: update_table_def)

lemma rows_delete_rows [simp]: "rows (delete_rows p t) = filter (\<lambda>r. \<not> p r) (rows t)"
  by (simp add: delete_rows_def)

lemma next_id_delete_rows [simp]: "next_id (delete_rows p t) = next_id t"
  by (simp add: delete_rows_def)

lemma find_row_Some: "find_row key k t = Some r \<Longrightarrow> r \<in> set (rows t) \<and> key r = k"
  by (auto simp: find_row_def dest: first_row_Some)

lemma find_row_None: "find_row key k t = None \<longleftrightarrow> (\<forall>r \<in> set (rows t). key r \<noteq> k)"
  by (simp add: find_row_def row_simps)

text \<open>A table whose keys are distinct and below its counter, which starts at 1.\<close>

definition keyed :: "('r \<Rightarrow> int) \<Rightarrow> 'r table \<Rightarrow> bool" where
  "keyed key t \<longleftrightarrow> distinct (List.map key (rows t)) \<and> (\<forall>r \<in> set (rows t). key r < next_id t) \<and> 0 < next_id t"

lemma keyed_insert_row:
  "keyed key t \<Longrightarrow> (\<And>k r. key (f k r) = k) \<Longrightarrow> keyed key (insert_row f r t)"
  by (force simp: keyed_def)

lemma keyed_update_table:
  "keyed key t \<Longrightarrow> (\<And>r. key (f r) = key r) \<Longrightarrow> keyed key (update_table p f t)"
  unfolding keyed_def rows_update_table next_id_update_table
  by (auto simp: map_update_rows set_update_rows)

lemma keyed_delete_rows: "keyed key t \<Longrightarrow> keyed key (delete_rows p t)"
  by (auto simp: keyed_def distinct_map_filter)

lemma keyed_find_row: "keyed key t \<Longrightarrow> r \<in> set (rows t) \<Longrightarrow> find_row key (key r) t = Some r"
proof -
  assume a: "keyed key t" "r \<in> set (rows t)"
  then obtain r' where r': "find_row key (key r) t = Some r'"
    by (cases "find_row key (key r) t") (auto simp: find_row_None)
  then have "r' \<in> set (rows t)" "key r' = key r" using find_row_Some [OF r'] by auto
  with a have "r' = r" by (auto simp: keyed_def distinct_map inj_on_def)
  with r' show ?thesis by simp
qed

lemma find_row_insert_row:
  assumes "keyed key t" "\<And>k r. key (f k r) = k"
  shows "find_row key k (insert_row f r t) = (if k = next_id t then Some (f (next_id t) r) else find_row key k t)"
proof (cases "k = next_id t")
  case True
  then have "first_row (\<lambda>r. key r = k) (rows t) = None"
    using assms by (auto simp: first_row_None keyed_def)
  with True assms show ?thesis by (simp add: find_row_def first_row_append first_row_Cons)
next
  case False
  with assms show ?thesis
    by (simp add: find_row_def first_row_append first_row_Cons split: option.split)
qed

lemma find_row_update_table:
  "(\<And>r. key (f r) = key r) \<Longrightarrow>
     find_row key k (update_table p f t) = map_option (\<lambda>r. if p r then f r else r) (find_row key k t)"
  by (simp add: find_row_def update_rows_def first_row_map)

lemma with_tx_cases [consumes 1, case_names aborted committed]:
  assumes "with_tx body db = (r, db')"
  obtains e where "body db = Inl e" "r = Inl e" "db' = db"
    | x where "body db = Inr (x, db')" "r = Inr x"
  using assms by (auto simp: with_tx_def split: sum.splits prod.splits)

end
