(* ===== verification/Ledger.thy ===== *)
theory Ledger
  imports AcctDb
begin

text \<open>
  The general ledger: \<open>internal/accounting/service.go\<close> (the rules) over
  \<open>repository.go\<close> (the statements). A read returns \<open>acct_error + 'a\<close>; a write takes the
  database last and returns its result with the database it leaves, the unchanged one when it failed.
  Two properties carry the module: whatever is written to the journal balances, and the journal only
  grows, outside locked periods. They are stated as the contract \<open>books_writer\<close>, which every
  writing operation of this and the later theories is shown to satisfy.
\<close>

section \<open>Dates and periods\<close>

definition valid_date :: "string \<Rightarrow> post_fault option" where
  "valid_date s =
     (if s = '''' then Some DateRequired
      else case parse_date s of None \<Rightarrow> Some (BadDate s) | Some _ \<Rightarrow> None)"

definition add_days :: "string \<Rightarrow> int \<Rightarrow> string" where
  "add_days date days =
     (case parse_date date of None \<Rightarrow> date | Some c \<Rightarrow> format_date (add_days_civil (nat days) c))"

text \<open>\<open>ORDER BY f DESC\<close>, stable.\<close>

definition desc_by :: "('a \<Rightarrow> 'b::linorder) \<Rightarrow> 'a list \<Rightarrow> 'a list" where
  "desc_by f xs = rev (sort_key f (rev xs))"

definition covers :: "string \<Rightarrow> period \<Rightarrow> bool" where
  "covers date p = (p_locked p \<and> p_starts p \<le> date \<and> date \<le> p_ends p)"

definition lock_covering :: "acct_db \<Rightarrow> string \<Rightarrow> period option" where
  "lock_covering db date =
     (case desc_by p_starts (filter (covers date) (rows (periods db))) of [] \<Rightarrow> None | p # _ \<Rightarrow> Some p)"

definition check_period_open :: "acct_db \<Rightarrow> string \<Rightarrow> acct_error option" where
  "check_period_open db date = map_option (Locked date) (lock_covering db date)"

definition list_periods :: "acct_db \<Rightarrow> period list" where
  "list_periods db = desc_by p_starts (rows (periods db))"

definition save_period :: "period \<Rightarrow> acct_db \<Rightarrow> (acct_error + period) \<times> acct_db" where
  "save_period p db =
     (if p_id p = 0 then
        (Inr (p\<lparr>p_id := next_id (periods db)\<rparr>), db\<lparr>periods := insert_row (\<lambda>k r. r\<lparr>p_id := k\<rparr>) p (periods db)\<rparr>)
      else (Inr p, db\<lparr>periods := update_table (\<lambda>r. p_id r = p_id p) (\<lambda>_. p) (periods db)\<rparr>))"

definition lock_period :: "clock \<Rightarrow> period \<Rightarrow> acct_db \<Rightarrow> (acct_error + period) \<times> acct_db" where
  "lock_period ck p db =
     (case valid_date (p_starts p) of Some f \<Rightarrow> (Inl (Invalid (PostFault f)), db) | None \<Rightarrow>
      case valid_date (p_ends p) of Some f \<Rightarrow> (Inl (Invalid (PostFault f)), db) | None \<Rightarrow>
      if p_ends p < p_starts p then (Inl (Invalid (PostFault (PeriodBackwards (p_ends p) (p_starts p)))), db)
      else save_period (p\<lparr>p_locked_at := (if p_locked p then now_stamp ck else ''''),
                          p_note := trim_space (p_note p)\<rparr>) db)"

section \<open>Accounts\<close>

definition list_accounts :: "bool \<Rightarrow> acct_db \<Rightarrow> account list" where
  "list_accounts archived_too db =
     sort_key a_code (filter (\<lambda>a. archived_too \<or> \<not> a_archived a) (rows (accounts db)))"

definition get_account :: "acct_db \<Rightarrow> int \<Rightarrow> acct_error + account" where
  "get_account db i = (case find_row a_id i (accounts db) of None \<Rightarrow> Inl NotFound | Some a \<Rightarrow> Inr a)"

definition account_exists :: "acct_db \<Rightarrow> int \<Rightarrow> bool" where
  "account_exists db i = (find_row a_id i (accounts db) \<noteq> None)"

definition account_by_system_key :: "acct_db \<Rightarrow> string \<Rightarrow> acct_error + account" where
  "account_by_system_key db key =
     (case first_row (\<lambda>a. a_system_key a = key) (rows (accounts db)) of None \<Rightarrow> Inl NotFound | Some a \<Rightarrow> Inr a)"

definition normalize_account :: "account \<Rightarrow> account" where
  "normalize_account a =
     a\<lparr>a_code := trim_space (a_code a), a_name := trim_space (a_name a), a_descr := trim_space (a_descr a),
       a_type := to_lower (trim_space (a_type a))\<rparr>"

definition validate_account :: "account \<Rightarrow> account_fault option" where
  "validate_account a =
     (if a_code a = '''' then Some CodeRequired
      else if a_name a = '''' then Some NameRequired
      else if \<not> account_type_valid (a_type a) then Some BadAccountType
      else None)"

text \<open>The constraints on a stored account, in the order SQLite tests them: the CHECK on the type, the
  two unique indexes against the other rows, the reference to the parent after the write.\<close>

definition account_conflict :: "acct_db \<Rightarrow> account \<Rightarrow> acct_error option" where
  "account_conflict db a =
     (if \<not> account_type_valid (a_type a) then Some (Invalid (CheckRejected ''account''))
      else if \<exists>b \<in> set (rows (accounts db)). a_id b \<noteq> a_id a \<and> a_code b = a_code a
        then Some (Invalid (AccountFault CodeTaken))
      else if a_system_key a \<noteq> '''' \<and> (\<exists>b \<in> set (rows (accounts db)). a_id b \<noteq> a_id a \<and> a_system_key b = a_system_key a)
        then Some (Invalid (AccountFault SystemKeyTaken))
      else if a_parent a \<noteq> 0 \<and> a_parent a \<noteq> a_id a \<and> \<not> account_exists db (a_parent a)
        then Some (Invalid (MissingReference ''account''))
      else None)"

text \<open>Only the stored columns: the totals are derived.\<close>

definition account_columns :: "account \<Rightarrow> account" where
  "account_columns a = a\<lparr>a_debit_total := 0, a_credit_total := 0, a_balance := 0\<rparr>"

definition insert_account :: "account \<Rightarrow> acct_db \<Rightarrow> (acct_error + account) \<times> acct_db" where
  "insert_account a db =
     (let k = next_id (accounts db) in
      case account_conflict db (a\<lparr>a_id := k\<rparr>) of
        Some e \<Rightarrow> (Inl e, db)
      | None \<Rightarrow>
          let db' = db\<lparr>accounts := insert_row (\<lambda>k r. r\<lparr>a_id := k\<rparr>) (account_columns a) (accounts db)\<rparr>
          in (get_account db' k, db'))"

definition rewrite_account :: "account \<Rightarrow> account \<Rightarrow> account" where
  "rewrite_account a r =
     r\<lparr>a_code := a_code a, a_name := a_name a, a_type := a_type a, a_parent := a_parent a,
       a_descr := a_descr a, a_archived := a_archived a\<rparr>"

definition store_account :: "int \<Rightarrow> account \<Rightarrow> acct_db \<Rightarrow> (acct_error + account) \<times> acct_db" where
  "store_account i a db =
     (case find_row a_id i (accounts db) of
        None \<Rightarrow> (Inl NotFound, db)
      | Some r \<Rightarrow>
          (case account_conflict db (rewrite_account a r) of
             Some e \<Rightarrow> (Inl e, db)
           | None \<Rightarrow>
               let db' = db\<lparr>accounts := update_table (\<lambda>r. a_id r = i) (rewrite_account a) (accounts db)\<rparr>
               in (get_account db' i, db')))"

definition account_has_postings :: "acct_db \<Rightarrow> int \<Rightarrow> bool" where
  "account_has_postings db i = (\<exists>l \<in> set (rows (jlines db)). l_account l = i)"

definition create_account :: "clock \<Rightarrow> account \<Rightarrow> acct_db \<Rightarrow> (acct_error + account) \<times> acct_db" where
  "create_account ck a0 db =
     (let a = normalize_account a0 in
      case validate_account a of
        Some f \<Rightarrow> (Inl (Invalid (AccountFault f)), db)
      | None \<Rightarrow> insert_account (a\<lparr>a_system_key := '''', a_created := now_stamp ck\<rparr>) db)"

definition update_account :: "int \<Rightarrow> account \<Rightarrow> acct_db \<Rightarrow> (acct_error + account) \<times> acct_db" where
  "update_account i a0 db =
     (case get_account db i of
        Inl e \<Rightarrow> (Inl e, db)
      | Inr existing \<Rightarrow>
          (let a = normalize_account a0 in
           case validate_account a of
             Some f \<Rightarrow> (Inl (Invalid (AccountFault f)), db)
           | None \<Rightarrow>
               if a_parent a = i then (Inl (Invalid (AccountFault OwnParent)), db)
               else if a_type a \<noteq> a_type existing \<and> account_has_postings db i
                 then (Inl (Invalid (AccountFault (TypeHasPostings (a_code existing) (a_type existing) (a_type a)))), db)
               else store_account i a db))"

definition archive_account :: "int \<Rightarrow> bool \<Rightarrow> acct_db \<Rightarrow> (acct_error + unit) \<times> acct_db" where
  "archive_account i arch db =
     (case get_account db i of
        Inl e \<Rightarrow> (Inl e, db)
      | Inr a \<Rightarrow>
          if arch \<and> a_system_key a \<noteq> '''' then (Inl (Invalid (AccountFault (SystemAccountArchived (a_code a) (a_name a)))), db)
          else (Inr (), db\<lparr>accounts := update_table (\<lambda>r. a_id r = i) (\<lambda>r. r\<lparr>a_archived := arch\<rparr>) (accounts db)\<rparr>))"

section \<open>VAT rates\<close>

definition list_vat_rates :: "bool \<Rightarrow> acct_db \<Rightarrow> vat_rate list" where
  "list_vat_rates archived_too db =
     sort_key (\<lambda>v. (- r_bp v, r_code v)) (filter (\<lambda>v. archived_too \<or> \<not> r_archived v) (rows (vat_rates db)))"

definition get_vat_rate :: "acct_db \<Rightarrow> int \<Rightarrow> acct_error + vat_rate" where
  "get_vat_rate db i = (case find_row r_id i (vat_rates db) of None \<Rightarrow> Inl NotFound | Some v \<Rightarrow> Inr v)"

definition vat_rate_by_kind :: "acct_db \<Rightarrow> string \<Rightarrow> acct_error + vat_rate" where
  "vat_rate_by_kind db k =
     (case sort_key r_id (filter (\<lambda>v. r_kind v = k \<and> \<not> r_archived v) (rows (vat_rates db))) of
        [] \<Rightarrow> Inl NotFound | v # _ \<Rightarrow> Inr v)"

definition vat_conflict :: "acct_db \<Rightarrow> vat_rate \<Rightarrow> acct_error option" where
  "vat_conflict db v =
     (if r_bp v < 0 \<or> \<not> vat_kind_valid (r_kind v) then Some (Invalid (CheckRejected ''VAT rate''))
      else if \<exists>w \<in> set (rows (vat_rates db)). r_id w \<noteq> r_id v \<and> r_code w = r_code v
        then Some (Invalid (VatFault RateCodeTaken))
      else None)"

definition store_vat_rate :: "vat_rate \<Rightarrow> acct_db \<Rightarrow> (acct_error + vat_rate) \<times> acct_db" where
  "store_vat_rate v db =
     (if r_id v = 0 then
        (let k = next_id (vat_rates db) in
         case vat_conflict db (v\<lparr>r_id := k\<rparr>) of
           Some e \<Rightarrow> (Inl e, db)
         | None \<Rightarrow>
             let db' = db\<lparr>vat_rates := insert_row (\<lambda>k r. r\<lparr>r_id := k\<rparr>) v (vat_rates db)\<rparr> in (get_vat_rate db' k, db'))
      else
        case find_row r_id (r_id v) (vat_rates db) of
          None \<Rightarrow> (Inl NotFound, db)
        | Some _ \<Rightarrow>
            (case vat_conflict db v of
               Some e \<Rightarrow> (Inl e, db)
             | None \<Rightarrow>
                 let db' = db\<lparr>vat_rates := update_table (\<lambda>r. r_id r = r_id v) (\<lambda>_. v) (vat_rates db)\<rparr>
                 in (get_vat_rate db' (r_id v), db')))"

definition vat_fault_of :: "vat_rate \<Rightarrow> vat_fault option" where
  "vat_fault_of v =
     (if r_code v = '''' then Some RateCodeRequired
      else if r_name v = '''' then Some RateNameRequired
      else if \<not> vat_kind_valid (r_kind v) then Some BadVatKind
      else if r_bp v < 0 \<or> 10000 < r_bp v then Some RateOutOfRange
      else if r_kind v \<in> {vat_zero, vat_exempt, vat_reverse_charge} \<and> r_bp v \<noteq> 0
        then Some (RateNotZero (r_kind v) (r_bp v))
      else None)"

definition save_vat_rate :: "vat_rate \<Rightarrow> acct_db \<Rightarrow> (acct_error + vat_rate) \<times> acct_db" where
  "save_vat_rate v0 db =
     (let v = v0\<lparr>r_code := to_upper (trim_space (r_code v0)), r_name := trim_space (r_name v0),
                 r_kind := (if r_kind v0 = '''' then vat_standard else r_kind v0)\<rparr> in
      case vat_fault_of v of
        Some f \<Rightarrow> (Inl (Invalid (VatFault f)), db)
      | None \<Rightarrow> store_vat_rate v db)"

section \<open>Settings\<close>

definition get_settings :: "acct_db \<Rightarrow> acct_error + settings" where
  "get_settings db = (case settings_row db of None \<Rightarrow> Inl NotFound | Some s \<Rightarrow> Inr s)"

definition settings_fault_of :: "acct_db \<Rightarrow> settings \<Rightarrow> settings_fault option" where
  "settings_fault_of db s =
     (if length (s_currency s) \<noteq> 3 then Some (BadCurrency (s_currency s))
      else if s_terms_days s < 0 \<or> 365 < s_terms_days s then Some BadTerms
      else if s_fiscal_month s < 1 \<or> 12 < s_fiscal_month s then Some BadMonth
      else if s_vat_rate s \<noteq> 0 \<and> \<not> res_ok (get_vat_rate db (s_vat_rate s)) then Some NoDefaultRate
      else None)"

definition save_settings :: "clock \<Rightarrow> settings \<Rightarrow> acct_db \<Rightarrow> (acct_error + settings) \<times> acct_db" where
  "save_settings ck s0 db =
     (let s = s0\<lparr>s_currency := to_upper (trim_space (s_currency s0)), s_symbol := trim_space (s_symbol s0)\<rparr> in
      case settings_fault_of db s of
        Some f \<Rightarrow> (Inl (Invalid (SettingsFault f)), db)
      | None \<Rightarrow>
          let db' = db\<lparr>settings_row := map_option (\<lambda>_. s\<lparr>s_updated := now_stamp ck\<rparr>) (settings_row db)\<rparr>
          in (get_settings db', db'))"

section \<open>The journal\<close>

definition line_ok :: "journal_line \<Rightarrow> bool" where
  "line_ok l = (0 \<le> l_debit l \<and> 0 \<le> l_credit l \<and> (l_debit l = 0) \<noteq> (l_credit l = 0))"

text \<open>\<open>insertEntryTx\<close>: the header, then the lines under its id with their position as ordinal. The
  columns the join fills in on reading are not stored.\<close>

definition line_row :: "int \<Rightarrow> nat \<Rightarrow> journal_line \<Rightarrow> journal_line" where
  "line_row eid n l =
     l\<lparr>l_entry := eid, l_ordinal := int n, l_account_code := '''', l_account_name := '''', l_account_type := ''''\<rparr>"

fun insert_lines_tx :: "int \<Rightarrow> nat \<Rightarrow> journal_line list \<Rightarrow> acct_db \<Rightarrow> acct_error + acct_db" where
  "insert_lines_tx eid n [] db = Inr db"
| "insert_lines_tx eid n (l # ls) db =
     (if \<not> line_ok l then Inl (Db CheckFailed)
      else if \<not> account_exists db (l_account l) then Inl (Db ForeignKeyFailed)
      else insert_lines_tx eid (n + 1) ls
             (db\<lparr>jlines := insert_row (\<lambda>k r. r\<lparr>l_id := k\<rparr>) (line_row eid n l) (jlines db)\<rparr>))"

definition insert_entry_tx :: "entry \<Rightarrow> acct_db \<Rightarrow> acct_error + (int \<times> acct_db)" where
  "insert_entry_tx e db =
     (if \<not> source_valid (e_source e) then Inl (Db CheckFailed)
      else
        let k = next_id (entries db);
            db1 = db\<lparr>entries := insert_row (\<lambda>k r. r\<lparr>e_id := k\<rparr>) (e\<lparr>e_lines := []\<rparr>) (entries db)\<rparr>
        in case insert_lines_tx k 0 (e_lines e) db1 of Inl err \<Rightarrow> Inl err | Inr db2 \<Rightarrow> Inr (k, db2))"

definition join_account :: "acct_db \<Rightarrow> journal_line \<Rightarrow> journal_line option" where
  "join_account db l =
     map_option (\<lambda>a. l\<lparr>l_account_code := a_code a, l_account_name := a_name a, l_account_type := a_type a\<rparr>)
       (find_row a_id (l_account l) (accounts db))"

definition lines_for :: "acct_db \<Rightarrow> int \<Rightarrow> journal_line list" where
  "lines_for db eid =
     sort_key (\<lambda>l. (l_ordinal l, l_id l))
       (List.map_filter (join_account db) (filter (\<lambda>l. l_entry l = eid) (rows (jlines db))))"

definition get_entry :: "acct_db \<Rightarrow> int \<Rightarrow> acct_error + entry" where
  "get_entry db i =
     (case find_row e_id i (entries db) of
        None \<Rightarrow> Inl NotFound
      | Some e \<Rightarrow> Inr (e\<lparr>e_lines := lines_for db i\<rparr>))"

definition post_entry :: "entry \<Rightarrow> acct_db \<Rightarrow> (acct_error + entry) \<times> acct_db" where
  "post_entry e db =
     (case with_tx (insert_entry_tx e) db of
        (Inl err, db') \<Rightarrow> (Inl err, db')
      | (Inr k, db') \<Rightarrow> (get_entry db' k, db'))"

record entry_filter =
  ef_from :: string
  ef_to :: string
  ef_account :: int
  ef_source :: string
  ef_source_id :: int
  ef_limit :: int

definition entry_matches :: "acct_db \<Rightarrow> entry_filter \<Rightarrow> entry \<Rightarrow> bool" where
  "entry_matches db f e =
     ((ef_from f = '''' \<or> ef_from f \<le> e_date e) \<and> (ef_to f = '''' \<or> e_date e \<le> ef_to f) \<and>
      (ef_source f = '''' \<or> e_source e = ef_source f) \<and> (ef_source_id f = 0 \<or> e_source_id e = ef_source_id f) \<and>
      (ef_account f = 0 \<or> (\<exists>l \<in> set (rows (jlines db)). l_entry l = e_id e \<and> l_account l = ef_account f)))"

definition list_entries :: "entry_filter \<Rightarrow> acct_db \<Rightarrow> entry list" where
  "list_entries f db =
     (let limit = (if ef_limit f \<le> 0 \<or> 500 < ef_limit f then 200 else ef_limit f)
      in List.map (\<lambda>e. e\<lparr>e_lines := lines_for db (e_id e)\<rparr>)
           (take (nat limit) (desc_by (\<lambda>e. (e_date e, e_id e)) (filter (entry_matches db f) (rows (entries db))))))"

text \<open>\<open>Post\<close>: the checks on the lines, one after the other, adding up both sides.\<close>

fun check_lines :: "acct_db \<Rightarrow> nat \<Rightarrow> journal_line list \<Rightarrow> money \<Rightarrow> money \<Rightarrow> acct_error + (money \<times> money)" where
  "check_lines db n [] d c = Inr (d, c)"
| "check_lines db n (l # ls) d c =
     (if l_debit l < 0 \<or> l_credit l < 0 then Inl (Invalid (PostFault (NegativeAmount n)))
      else if (l_debit l = 0) = (l_credit l = 0) then Inl (Invalid (PostFault (OneSide n)))
      else case get_account db (l_account l) of
        Inl NotFound \<Rightarrow> Inl (Invalid (PostFault (NoAccount n (l_account l))))
      | Inl e \<Rightarrow> Inl e
      | Inr a \<Rightarrow>
          if a_archived a then Inl (Invalid (PostFault (ArchivedAccount n (a_code a) (a_name a))))
          else check_lines db (n + 1) ls (add64 d (l_debit l)) (add64 c (l_credit l)))"

definition post :: "clock \<Rightarrow> entry \<Rightarrow> acct_db \<Rightarrow> (acct_error + entry) \<times> acct_db" where
  "post ck e0 db =
     (let date = (if e_date e0 = '''' then today ck else e_date e0);
          src = (if e_source e0 = '''' then src_manual else e_source e0)
      in
      case valid_date date of Some f \<Rightarrow> (Inl (Invalid (PostFault f)), db) | None \<Rightarrow>
      if \<not> source_valid src then (Inl (Invalid (PostFault (UnknownSource src))), db) else
      case check_period_open db date of Some e \<Rightarrow> (Inl e, db) | None \<Rightarrow>
      if length (e_lines e0) < 2 then (Inl (Invalid (PostFault (TooFewLines (length (e_lines e0))))), db) else
      case check_lines db 1 (e_lines e0) 0 0 of Inl e \<Rightarrow> (Inl e, db) | Inr (d, c) \<Rightarrow>
      if d \<noteq> c then (Inl (Invalid (PostFault (NotBalanced d c (sub64 d c)))), db)
      else if d = 0 then (Inl (Invalid (PostFault NoValue)), db)
      else post_entry (e0\<lparr>e_date := date, e_source := src, e_memo := trim_space (e_memo e0),
                          e_created := now_stamp ck\<rparr>) db)"

definition posting_line :: "posting \<Rightarrow> journal_line" where
  "posting_line p =
     \<lparr>l_id = 0, l_entry = 0, l_account = o_account p, l_debit = o_debit p, l_credit = o_credit p,
      l_descr = o_descr p, l_ordinal = 0, l_account_code = '''', l_account_name = '''', l_account_type = ''''\<rparr>"

definition posting_empty :: "posting \<Rightarrow> bool" where
  "posting_empty p = (o_debit p = 0 \<and> o_credit p = 0)"

definition blank_entry :: entry where
  "blank_entry = \<lparr>e_id = 0, e_date = '''', e_memo = '''', e_source = '''', e_source_id = 0, e_reverses = 0,
     e_created = '''', e_lines = []\<rparr>"

definition post_from :: "clock \<Rightarrow> string \<Rightarrow> string \<Rightarrow> string \<Rightarrow> int \<Rightarrow> posting list \<Rightarrow> acct_db \<Rightarrow>
    (acct_error + entry) \<times> acct_db" where
  "post_from ck date memo src src_id ps db =
     post ck (blank_entry\<lparr>e_date := date, e_memo := memo, e_source := src, e_source_id := src_id,
                e_lines := List.map posting_line (filter (\<lambda>p. \<not> posting_empty p) ps)\<rparr>) db"

definition mirror :: "journal_line \<Rightarrow> journal_line" where
  "mirror l =
     \<lparr>l_id = 0, l_entry = 0, l_account = l_account l, l_debit = l_credit l, l_credit = l_debit l,
      l_descr = l_descr l, l_ordinal = 0, l_account_code = '''', l_account_name = '''', l_account_type = ''''\<rparr>"

definition reversal :: "clock \<Rightarrow> string \<Rightarrow> string \<Rightarrow> entry \<Rightarrow> entry" where
  "reversal ck date memo orig =
     blank_entry\<lparr>e_date := (if date = '''' then today ck else date),
       e_memo := (if memo = '''' then ''Reversal of entry '' @ int_str (e_id orig) else memo),
       e_source := e_source orig, e_source_id := e_source_id orig, e_reverses := e_id orig,
       e_lines := List.map mirror (e_lines orig)\<rparr>"

definition reverse_entry :: "clock \<Rightarrow> int \<Rightarrow> string \<Rightarrow> string \<Rightarrow> acct_db \<Rightarrow> (acct_error + entry) \<times> acct_db" where
  "reverse_entry ck i date memo db =
     (case get_entry db i of
        Inl e \<Rightarrow> (Inl e, db)
      | Inr orig \<Rightarrow> post ck (reversal ck date memo orig) db)"

section \<open>The contract of a writer\<close>

definition entry_rows :: "acct_db \<Rightarrow> int \<Rightarrow> journal_line list" where
  "entry_rows db i = filter (\<lambda>l. l_entry l = i) (rows (jlines db))"

text \<open>The books are in order: keys are distinct and below their counters, every account has one of the
  five types, every line is one-sided and belongs to an entry and an account, every entry balances.\<close>

definition books_ok :: "acct_db \<Rightarrow> bool" where
  "books_ok db \<longleftrightarrow>
     keyed a_id (accounts db) \<and> keyed e_id (entries db) \<and> keyed l_id (jlines db) \<and>
     (\<forall>a \<in> set (rows (accounts db)). account_type_valid (a_type a)) \<and>
     (\<forall>l \<in> set (rows (jlines db)). line_ok l \<and> account_exists db (l_account l) \<and>
        (\<exists>e \<in> set (rows (entries db)). e_id e = l_entry l)) \<and>
     (\<forall>e \<in> set (rows (entries db)). lines_balanced (entry_rows db (e_id e)))"

text \<open>The journal only grows, by whole entries, none of them dated inside a locked period.\<close>

definition journal_extends :: "acct_db \<Rightarrow> acct_db \<Rightarrow> bool" where
  "journal_extends db db' \<longleftrightarrow>
     (\<exists>es ls. rows (entries db') = rows (entries db) @ es \<and> rows (jlines db') = rows (jlines db) @ ls \<and>
        (\<forall>e \<in> set es. lock_covering db (e_date e) = None) \<and> (\<forall>l \<in> set ls. l_entry l \<in> e_id ` set es))"

lemma set_desc_by [simp]: "set (desc_by f xs) = set xs"
  by (simp add: desc_by_def)

lemma lock_covering_None: "lock_covering db d = None \<longleftrightarrow> (\<forall>p \<in> set (rows (periods db)). \<not> covers d p)"
proof -
  have "desc_by p_starts xs = [] \<longleftrightarrow> xs = []" for xs :: "period list" by (metis set_desc_by set_empty)
  moreover have "(case xs of [] \<Rightarrow> None | p # _ \<Rightarrow> Some p) = None \<longleftrightarrow> xs = []" for xs :: "period list"
    by (cases xs) simp_all
  ultimately show ?thesis by (simp add: lock_covering_def filter_empty_conv)
qed

locale books_writer =
  fixes run :: "acct_db \<Rightarrow> 'r \<times> acct_db"
  assumes keeps_books: "books_ok db \<Longrightarrow> books_ok (snd (run db))"
    and only_grows: "books_ok db \<Longrightarrow> journal_extends db (snd (run db))"
begin

lemma entry_stays:
  assumes "books_ok db" "e \<in> set (rows (entries db))"
  shows "e \<in> set (rows (entries (snd (run db))))"
  using only_grows [OF assms(1)] assms(2) by (auto simp: journal_extends_def)

lemma lines_stay:
  assumes ok: "books_ok db" and e: "e \<in> set (rows (entries db))"
  shows "entry_rows (snd (run db)) (e_id e) = entry_rows db (e_id e)"
proof -
  obtain es ls where w: "rows (entries (snd (run db))) = rows (entries db) @ es"
      "rows (jlines (snd (run db))) = rows (jlines db) @ ls" "\<forall>l \<in> set ls. l_entry l \<in> e_id ` set es"
    using only_grows [OF ok] by (auto simp: journal_extends_def)
  have "distinct (List.map e_id (rows (entries db) @ es))"
    using keeps_books [OF ok] w(1) by (simp add: books_ok_def keyed_def)
  then have "e_id e \<notin> e_id ` set es" using e by auto
  with w(3) have "l_entry l \<noteq> e_id e" if "l \<in> set ls" for l using that by metis
  then have "filter (\<lambda>l. l_entry l = e_id e) ls = []" by (auto simp: filter_empty_conv)
  with w(2) show ?thesis by (simp add: entry_rows_def)
qed

lemma locked_window_closed:
  assumes ok: "books_ok db" and p: "p \<in> set (rows (periods db))"
  shows "filter (\<lambda>e. covers (e_date e) p) (rows (entries (snd (run db)))) =
    filter (\<lambda>e. covers (e_date e) p) (rows (entries db))"
proof -
  obtain es where w: "rows (entries (snd (run db))) = rows (entries db) @ es"
      "\<forall>e \<in> set es. lock_covering db (e_date e) = None"
    using only_grows [OF ok] by (auto simp: journal_extends_def)
  have "\<not> covers (e_date e) p" if "e \<in> set es" for e
    using w(2) that p by (auto simp: lock_covering_None)
  then have "filter (\<lambda>e. covers (e_date e) p) es = []" by (auto simp: filter_empty_conv)
  with w(1) show ?thesis by simp
qed

end

section \<open>Writing an entry\<close>

fun line_rows :: "int \<Rightarrow> int \<Rightarrow> nat \<Rightarrow> journal_line list \<Rightarrow> journal_line list" where
  "line_rows k eid n [] = []"
| "line_rows k eid n (l # ls) = (line_row eid n l)\<lparr>l_id := k\<rparr> # line_rows (k + 1) eid (n + 1) ls"

lemma line_row_simps [simp]:
  "l_entry (line_row eid n l) = eid" "l_debit (line_row eid n l) = l_debit l"
  "l_credit (line_row eid n l) = l_credit l" "l_account (line_row eid n l) = l_account l"
  "l_ordinal (line_row eid n l) = int n" "l_descr (line_row eid n l) = l_descr l"
  by (simp_all add: line_row_def)

lemma line_rows_simps [simp]:
  "length (line_rows k eid n ls) = length ls"
  "List.map l_debit (line_rows k eid n ls) = List.map l_debit ls"
  "List.map l_credit (line_rows k eid n ls) = List.map l_credit ls"
  "List.map l_account (line_rows k eid n ls) = List.map l_account ls"
  by (induction ls arbitrary: k n) simp_all

lemma line_rows_entry: "l \<in> set (line_rows k eid n ls) \<Longrightarrow> l_entry l = eid"
  by (induction ls arbitrary: k n) auto

lemma line_rows_ids: "l \<in> set (line_rows k eid n ls) \<Longrightarrow> k \<le> l_id l \<and> l_id l < k + int (length ls)"
  by (induction ls arbitrary: k n) fastforce+

lemma line_rows_distinct: "distinct (List.map l_id (line_rows k eid n ls))"
proof (induction ls arbitrary: k n)
  case (Cons l ls)
  have "k \<notin> l_id ` set (line_rows (k + 1) eid (n + 1) ls)" using line_rows_ids [of _ "k + 1"] by fastforce
  with Cons show ?case by simp
qed simp

lemma line_rows_origin:
  "l \<in> set (line_rows k eid n ls) \<Longrightarrow>
     \<exists>l0 \<in> set ls. l_account l = l_account l0 \<and> l_debit l = l_debit l0 \<and> l_credit l = l_credit l0"
  by (induction ls arbitrary: k n) fastforce+

lemma keyed_append:
  assumes "keyed key t" "distinct (List.map key xs)" "\<And>x. x \<in> set xs \<Longrightarrow> next_id t \<le> key x \<and> key x < n" "next_id t \<le> n"
  shows "keyed key \<lparr>rows = rows t @ xs, next_id = n\<rparr>"
proof -
  have ne: "key x \<noteq> key y" if "x \<in> set xs" "y \<in> set (rows t)" for x y
    using assms(1) assms(3) [OF that(1)] that(2) by (force simp: keyed_def)
  have False if "k \<in> key ` set (rows t)" "k \<in> key ` set xs" for k
    using that by (elim imageE) (use ne in metis)
  then have "key ` set (rows t) \<inter> key ` set xs = {}" by blast
  moreover have "key y < n" if "y \<in> set (rows t)" for y using assms(1,4) that by (force simp: keyed_def)
  moreover have "0 < n" using assms(1,4) by (simp add: keyed_def)
  ultimately show ?thesis using assms(1,2,3) by (auto simp: keyed_def)
qed

lemma account_exists_jlines [simp]: "account_exists (db\<lparr>jlines := t\<rparr>) i = account_exists db i"
  by (simp add: account_exists_def)

lemma account_exists_entries [simp]: "account_exists (db\<lparr>entries := t\<rparr>) i = account_exists db i"
  by (simp add: account_exists_def)

definition lines_storable :: "acct_db \<Rightarrow> journal_line list \<Rightarrow> bool" where
  "lines_storable db ls = (\<forall>l \<in> set ls. line_ok l \<and> account_exists db (l_account l))"

lemma insert_lines_tx_iff:
  "insert_lines_tx eid n ls db = Inr db' \<longleftrightarrow>
     lines_storable db ls \<and>
     db' = db\<lparr>jlines := \<lparr>rows = rows (jlines db) @ line_rows (next_id (jlines db)) eid n ls,
                         next_id = next_id (jlines db) + int (length ls)\<rparr>\<rparr>"
proof (induction ls arbitrary: n db)
  case (Cons l ls)
  show ?case
  proof (cases "line_ok l \<and> account_exists db (l_account l)")
    case True
    then show ?thesis
      by (simp add: Cons.IH lines_storable_def insert_row_def add.assoc)
  next
    case False
    then show ?thesis by (auto simp: lines_storable_def)
  qed
qed (auto simp: lines_storable_def)

lemma insert_entry_tx_iff:
  "insert_entry_tx e db = Inr (k, db') \<longleftrightarrow>
     source_valid (e_source e) \<and> lines_storable db (e_lines e) \<and> k = next_id (entries db) \<and>
     db' = db\<lparr>entries := insert_row (\<lambda>k r. r\<lparr>e_id := k\<rparr>) (e\<lparr>e_lines := []\<rparr>) (entries db),
              jlines := \<lparr>rows = rows (jlines db) @ line_rows (next_id (jlines db)) k 0 (e_lines e),
                         next_id = next_id (jlines db) + int (length (e_lines e))\<rparr>\<rparr>"
proof -
  let ?k = "next_id (entries db)"
  let ?db1 = "db\<lparr>entries := insert_row (\<lambda>k r. r\<lparr>e_id := k\<rparr>) (e\<lparr>e_lines := []\<rparr>) (entries db)\<rparr>"
  have storable: "lines_storable ?db1 (e_lines e) = lines_storable db (e_lines e)" by (simp add: lines_storable_def)
  show ?thesis
    using insert_lines_tx_iff [of ?k 0 "e_lines e" ?db1] storable
    by (cases "insert_lines_tx ?k 0 (e_lines e) ?db1") (auto simp: insert_entry_tx_def Let_def)
qed

lemma insert_lines_tx_error: "insert_lines_tx eid n ls db = Inl e \<Longrightarrow> e = Db CheckFailed \<or> e = Db ForeignKeyFailed"
  by (induction ls arbitrary: n db) (auto split: if_splits)

text \<open>What a written entry leaves behind.\<close>

lemma entry_rows_fresh:
  assumes "books_ok db" "next_id (entries db) \<le> i"
  shows "entry_rows db i = []"
  using assms unfolding books_ok_def keyed_def entry_rows_def filter_empty_conv by fastforce

lemma insert_entry_rows:
  assumes ins: "insert_entry_tx e db = Inr (k, db')" and ok: "books_ok db"
  shows "entry_rows db' i =
    (if i = k then line_rows (next_id (jlines db)) k 0 (e_lines e) else entry_rows db i)"
proof -
  note db' = ins [unfolded insert_entry_tx_iff]
  have new: "filter (\<lambda>l. l_entry l = i) (line_rows m k 0 ls) = (if i = k then line_rows m k 0 ls else [])" for m ls
    using line_rows_entry [of _ m k 0 ls] by (auto simp: filter_empty_conv filter_id_conv)
  have "rows (jlines db') = rows (jlines db) @ line_rows (next_id (jlines db)) k 0 (e_lines e)"
    using db' by simp
  moreover have "filter (\<lambda>l. l_entry l = k) (rows (jlines db)) = []"
    using db' entry_rows_fresh [OF ok, of k] by (simp add: entry_rows_def)
  ultimately show ?thesis by (simp add: entry_rows_def new)
qed

lemma insert_entry_books:
  assumes ins: "insert_entry_tx e db = Inr (k, db')" and ok: "books_ok db" and bal: "lines_balanced (e_lines e)"
  shows "books_ok db'"
proof -
  note w = ins [unfolded insert_entry_tx_iff]
  let ?new = "line_rows (next_id (jlines db)) k 0 (e_lines e)"
  have rows: "rows (entries db') = rows (entries db) @ [e\<lparr>e_lines := [], e_id := k\<rparr>]"
    "rows (jlines db') = rows (jlines db) @ ?new" "accounts db' = accounts db"
    using w by simp_all
  have ex: "account_exists db' i = account_exists db i" for i using rows(3) by (simp add: account_exists_def)
  have k1: "keyed e_id (entries db')" using w ok by (simp add: books_ok_def keyed_insert_row)
  have k2: "keyed l_id (jlines db')"
    using w keyed_append [OF _ line_rows_distinct, of "jlines db" "next_id (jlines db)" k 0 "e_lines e"
        "next_id (jlines db) + int (length (e_lines e))"] line_rows_ids [of _ "next_id (jlines db)" k 0 "e_lines e"] ok
    by (simp add: books_ok_def)
  have old: "line_ok l \<and> account_exists db' (l_account l) \<and> (\<exists>e \<in> set (rows (entries db')). e_id e = l_entry l)"
    if "l \<in> set (rows (jlines db))" for l
    using ok that ex by (auto simp: books_ok_def rows(1))
  have fresh: "line_ok l \<and> account_exists db' (l_account l) \<and> (\<exists>e \<in> set (rows (entries db')). e_id e = l_entry l)"
    if "l \<in> set ?new" for l
    using line_rows_origin [OF that] line_rows_entry [OF that] w ex
    by (auto simp: rows(1) lines_storable_def line_ok_def)
  have b: "lines_balanced (entry_rows db' (e_id r))" if "r \<in> set (rows (entries db'))" for r
  proof (cases "e_id r = k")
    case True
    then show ?thesis using bal by (simp add: insert_entry_rows [OF ins ok] lines_balanced_def)
  next
    case False
    then have "r \<in> set (rows (entries db))" using that rows(1) by auto
    then show ?thesis using ok False by (auto simp: insert_entry_rows [OF ins ok] books_ok_def)
  qed
  show ?thesis
    unfolding books_ok_def
  proof (intro conjI)
    show "\<forall>l \<in> set (rows (jlines db')). line_ok l \<and> account_exists db' (l_account l) \<and>
        (\<exists>e \<in> set (rows (entries db')). e_id e = l_entry l)"
      using old fresh rows(2) by (metis Un_iff set_append)
  qed (use k1 k2 ok rows(3) b in \<open>simp_all add: books_ok_def\<close>)
qed

lemma insert_entry_extends:
  assumes "insert_entry_tx e db = Inr (k, db')" "lock_covering db (e_date e) = None"
  shows "journal_extends db db'"
proof -
  note w = assms(1) [unfolded insert_entry_tx_iff]
  show ?thesis
    unfolding journal_extends_def
    by (rule exI [of _ "[e\<lparr>e_lines := [], e_id := k\<rparr>]"],
        rule exI [of _ "line_rows (next_id (jlines db)) k 0 (e_lines e)"])
      (use w assms(2) line_rows_entry in fastforce)
qed

section \<open>Reading an entry back\<close>

definition joined :: "acct_db \<Rightarrow> journal_line \<Rightarrow> journal_line" where
  "joined db l = (case join_account db l of None \<Rightarrow> l | Some l' \<Rightarrow> l')"

lemma joined_simps [simp]:
  "l_id (joined db l) = l_id l" "l_entry (joined db l) = l_entry l" "l_account (joined db l) = l_account l"
  "l_debit (joined db l) = l_debit l" "l_credit (joined db l) = l_credit l" "l_descr (joined db l) = l_descr l"
  "l_ordinal (joined db l) = l_ordinal l"
  by (simp_all add: joined_def join_account_def split: option.split)

lemma join_all:
  "(\<And>l. l \<in> set ls \<Longrightarrow> account_exists db (l_account l)) \<Longrightarrow>
     List.map_filter (join_account db) ls = List.map (joined db) ls"
proof (induction ls)
  case (Cons l ls)
  then obtain a where "find_row a_id (l_account l) (accounts db) = Some a"
    by (fastforce simp: account_exists_def)
  with Cons show ?case by (simp add: List.map_filter_simps joined_def join_account_def)
qed (simp add: List.map_filter_simps)

lemma lines_for_books:
  assumes "books_ok db"
  shows "lines_for db i = sort_key (\<lambda>l. (l_ordinal l, l_id l)) (List.map (joined db) (entry_rows db i))"
proof -
  have "account_exists db (l_account l)" if "l \<in> set (entry_rows db i)" for l
    using assms that by (auto simp: books_ok_def entry_rows_def)
  then show ?thesis by (simp add: lines_for_def entry_rows_def [symmetric] join_all)
qed

lemma line_rows_ordinal: "l \<in> set (line_rows k eid n ls) \<Longrightarrow> int n \<le> l_ordinal l"
  by (induction ls arbitrary: k n) fastforce+

lemma line_rows_sorted: "sorted (List.map (\<lambda>l. (l_ordinal l, l_id l)) (line_rows k eid n ls))"
proof (induction ls arbitrary: k n)
  case (Cons l ls)
  have "int n < l_ordinal x" if "x \<in> set (line_rows (k + 1) eid (n + 1) ls)" for x
    using line_rows_ordinal [OF that] by simp
  with Cons show ?case by (auto simp: less_eq_prod_def)
qed simp

definition line_side :: "journal_line \<Rightarrow> int \<times> money \<times> money \<times> string" where
  "line_side l = (l_account l, l_debit l, l_credit l, l_descr l)"

lemma sides_balanced:
  assumes "List.map line_side xs = List.map line_side ys"
  shows "lines_balanced xs = lines_balanced ys"
proof -
  have "List.map l_debit ls = List.map (\<lambda>(_, d, _). d) (List.map line_side ls)"
    "List.map l_credit ls = List.map (\<lambda>(_, _, c, _). c) (List.map line_side ls)" for ls
    by (simp_all add: line_side_def)
  with assms show ?thesis by (simp only: lines_balanced_def)
qed

lemma sides_line_rows: "List.map line_side (line_rows k eid n ls) = List.map line_side ls"
  by (induction ls arbitrary: k n) (simp_all add: line_side_def)

lemma insert_entry_read:
  assumes ins: "insert_entry_tx e db = Inr (k, db')" and ok: "books_ok db'" "books_ok db"
  shows "get_entry db' k = Inr (e\<lparr>e_id := k, e_lines := lines_for db' k\<rparr>)"
    and "List.map line_side (lines_for db' k) = List.map line_side (e_lines e)"
proof -
  note w = ins [unfolded insert_entry_tx_iff]
  have "find_row e_id k (entries db') = Some (e\<lparr>e_lines := [], e_id := k\<rparr>)"
    using w ok(2) by (simp add: find_row_insert_row books_ok_def)
  then show "get_entry db' k = Inr (e\<lparr>e_id := k, e_lines := lines_for db' k\<rparr>)"
    by (simp add: get_entry_def)
  have "sorted (List.map (\<lambda>l. (l_ordinal l, l_id l)) (List.map (joined db') (entry_rows db' k)))"
    using line_rows_sorted by (simp add: insert_entry_rows [OF ins ok(2)] comp_def)
  then have "lines_for db' k = List.map (joined db') (entry_rows db' k)"
    by (simp add: lines_for_books [OF ok(1)] sort_key_id_if_sorted)
  moreover have "List.map line_side (List.map (joined db') ls) = List.map line_side ls" for ls
    by (simp add: line_side_def)
  ultimately show "List.map line_side (lines_for db' k) = List.map line_side (e_lines e)"
    by (simp only: insert_entry_rows [OF ins ok(2)] sides_line_rows if_True simp_thms)
qed

section \<open>Post, reverse\<close>

definition account_open :: "acct_db \<Rightarrow> int \<Rightarrow> bool" where
  "account_open db i = (\<exists>a. find_row a_id i (accounts db) = Some a \<and> \<not> a_archived a)"

definition lines_postable :: "acct_db \<Rightarrow> journal_line list \<Rightarrow> bool" where
  "lines_postable db ls = (\<forall>l \<in> set ls. line_ok l \<and> account_open db (l_account l))"

lemma check_lines_iff:
  "check_lines db n ls d c = Inr (d', c') \<longleftrightarrow>
     lines_postable db ls \<and> d' = foldl add64 d (List.map l_debit ls) \<and> c' = foldl add64 c (List.map l_credit ls)"
proof (induction ls arbitrary: n d c)
  case (Cons l ls)
  show ?case
  proof (cases "line_ok l \<and> account_open db (l_account l)")
    case True
    then obtain a where "find_row a_id (l_account l) (accounts db) = Some a" "\<not> a_archived a"
      by (auto simp: account_open_def)
    moreover have "\<not> (l_debit l < 0 \<or> l_credit l < 0)" "(l_debit l = 0) \<noteq> (l_credit l = 0)"
      using True by (auto simp: line_ok_def)
    ultimately have "check_lines db n (l # ls) d c =
        check_lines db (n + 1) ls (add64 d (l_debit l)) (add64 c (l_credit l))"
      by (auto simp: get_account_def)
    with True show ?thesis by (simp only: Cons.IH) (simp add: lines_postable_def)
  next
    case False
    then have "\<nexists>r. check_lines db n (l # ls) d c = Inr r"
      by (auto simp: line_ok_def account_open_def get_account_def split: option.split)
    with False show ?thesis by (auto simp: lines_postable_def)
  qed
qed (auto simp: lines_postable_def)

lemma lines_postable_storable: "lines_postable db ls \<Longrightarrow> lines_storable db ls"
  by (auto simp: lines_postable_def lines_storable_def account_open_def account_exists_def)

text \<open>The entry \<open>Post\<close> hands to the repository, and when it does.\<close>

definition stamped :: "clock \<Rightarrow> entry \<Rightarrow> entry" where
  "stamped ck e =
     e\<lparr>e_date := (if e_date e = '''' then today ck else e_date e),
       e_source := (if e_source e = '''' then src_manual else e_source e),
       e_memo := trim_space (e_memo e), e_created := now_stamp ck\<rparr>"

definition postable :: "clock \<Rightarrow> entry \<Rightarrow> acct_db \<Rightarrow> bool" where
  "postable ck e db \<longleftrightarrow>
     valid_date (e_date (stamped ck e)) = None \<and> source_valid (e_source (stamped ck e)) \<and>
     lock_covering db (e_date (stamped ck e)) = None \<and> 2 \<le> length (e_lines e) \<and>
     lines_postable db (e_lines e) \<and> lines_balanced (e_lines e) \<and> entry_total e \<noteq> 0"

lemma stamped_date: "e_date (stamped ck e) = (if e_date e = '''' then today ck else e_date e)"
  by (simp add: stamped_def)

lemma stamped_source: "e_source (stamped ck e) = (if e_source e = '''' then src_manual else e_source e)"
  by (simp add: stamped_def)

lemma post_alt:
  "post ck e db =
     (case valid_date (e_date (stamped ck e)) of Some f \<Rightarrow> (Inl (Invalid (PostFault f)), db) | None \<Rightarrow>
      if \<not> source_valid (e_source (stamped ck e)) then (Inl (Invalid (PostFault (UnknownSource (e_source (stamped ck e))))), db) else
      case check_period_open db (e_date (stamped ck e)) of Some err \<Rightarrow> (Inl err, db) | None \<Rightarrow>
      if length (e_lines e) < 2 then (Inl (Invalid (PostFault (TooFewLines (length (e_lines e))))), db) else
      case check_lines db 1 (e_lines e) 0 0 of Inl err \<Rightarrow> (Inl err, db) | Inr (d, c) \<Rightarrow>
      if d \<noteq> c then (Inl (Invalid (PostFault (NotBalanced d c (sub64 d c)))), db)
      else if d = 0 then (Inl (Invalid (PostFault NoValue)), db)
      else post_entry (stamped ck e) db)"
  by (simp only: post_def Let_def stamped_date stamped_source) (simp only: stamped_def)

lemma post_when:
  assumes "postable ck e db"
  shows "post ck e db = post_entry (stamped ck e) db"
proof -
  have "check_lines db 1 (e_lines e) 0 0 = Inr (entry_total e, entry_total e)"
    unfolding check_lines_iff using assms by (simp add: postable_def entry_total_def lines_balanced_def)
  with assms show ?thesis by (simp add: post_alt postable_def check_period_open_def)
qed

lemma post_unless:
  assumes "\<not> postable ck e db"
  shows "\<exists>err. post ck e db = (Inl err, db)"
proof (rule ccontr)
  assume no: "\<nexists>err. post ck e db = (Inl err, db)"
  then have w: "valid_date (e_date (stamped ck e)) = None" "source_valid (e_source (stamped ck e))"
      "lock_covering db (e_date (stamped ck e)) = None" "2 \<le> length (e_lines e)"
    by (auto simp: post_alt check_period_open_def split: option.splits if_splits)
  with no obtain d where d: "check_lines db 1 (e_lines e) 0 0 = Inr (d, d)" "d \<noteq> 0"
    by (cases "check_lines db 1 (e_lines e) 0 0") (auto simp: post_alt check_period_open_def split: if_splits)
  then have "postable ck e db"
    unfolding check_lines_iff using w by (simp add: postable_def entry_total_def lines_balanced_def)
  with assms show False ..
qed

lemma post_cases [consumes 1, case_names refused posted]:
  assumes "post ck e db = (r, db')"
  obtains err where "r = Inl err" "db' = db" "\<not> postable ck e db"
    | k where "insert_entry_tx (stamped ck e) db = Inr (k, db')" "r = get_entry db' k" "postable ck e db"
proof (cases "postable ck e db")
  case True
  have "e_lines (stamped ck e) = e_lines e" by (simp add: stamped_def)
  then have st: "source_valid (e_source (stamped ck e))" "lines_storable db (e_lines (stamped ck e))"
    using True lines_postable_storable by (simp_all add: postable_def)
  then obtain k db'' where ins: "insert_entry_tx (stamped ck e) db = Inr (k, db'')"
    using insert_entry_tx_iff by blast
  then have "post_entry (stamped ck e) db = (get_entry db'' k, db'')"
    by (simp add: post_entry_def with_tx_def)
  with post_when [OF True] assms have "r = get_entry db'' k" "db' = db''" by simp_all
  with ins True that(2) show thesis by blast
next
  case False
  with post_unless [OF False] assms that(1) show thesis by auto
qed

lemma posted_result:
  assumes "books_ok db" "postable ck e db"
  shows "\<exists>en db'. post ck e db = (Inr en, db')"
proof (cases "post ck e db")
  case (Pair r db')
  from Pair show ?thesis
  proof (cases rule: post_cases)
    case (posted k)
    then have "books_ok db'"
      using insert_entry_books [OF posted(1) assms(1)] by (simp add: postable_def stamped_def)
    from insert_entry_read(1) [OF posted(1) this assms(1)] posted(2) Pair show ?thesis by simp
  qed (use assms in simp)
qed

lemma post_keeps: "books_ok db \<Longrightarrow> books_ok (snd (post ck e db))"
proof (cases "post ck e db")
  case (Pair r db')
  assume ok: "books_ok db"
  from Pair show ?thesis
  proof (cases rule: post_cases)
    case (posted k)
    then show ?thesis using insert_entry_books [OF posted(1) ok] Pair by (simp add: postable_def stamped_def)
  qed (simp add: Pair ok)
qed

lemma journal_extends_refl [simp]:
  "entries db' = entries db \<Longrightarrow> jlines db' = jlines db \<Longrightarrow> journal_extends db db'"
  unfolding journal_extends_def by (rule exI [of _ "[]"], rule exI [of _ "[]"]) simp

lemma post_extends: "journal_extends db (snd (post ck e db))"
proof (cases "post ck e db")
  case (Pair r db')
  from Pair show ?thesis
  proof (cases rule: post_cases)
    case (posted k)
    then show ?thesis using insert_entry_extends [OF posted(1)] Pair by (simp add: postable_def)
  qed (simp add: Pair)
qed

text \<open>Net movement of an account over an entry.\<close>

definition net_of :: "int \<Rightarrow> journal_line list \<Rightarrow> int" where
  "net_of acct ls = sum_list (List.map (\<lambda>l. if l_account l = acct then l_debit l - l_credit l else 0) ls)"

lemma net_of_line_rows: "net_of acct (line_rows k eid n ls) = net_of acct ls"
  by (induction ls arbitrary: k n) (simp_all add: net_of_def)

lemma net_of_mirror: "net_of acct (List.map mirror ls) = - net_of acct ls"
  by (induction ls) (simp_all add: net_of_def mirror_def)

lemma net_of_lines_for:
  assumes "books_ok db"
  shows "net_of acct (lines_for db i) = net_of acct (entry_rows db i)"
proof -
  have "sum_list (List.map f (sort_key g xs)) = sum_list (List.map f xs)" for f :: "journal_line \<Rightarrow> int" and g :: "journal_line \<Rightarrow> int \<times> int" and xs
    by (metis mset_map mset_sort sum_mset_sum_list)
  then show ?thesis
    by (simp add: lines_for_books [OF assms] net_of_def comp_def cong: if_cong)
qed

section \<open>Every operation keeps the contract\<close>

lemma books_ok_cong:
  "accounts db' = accounts db \<Longrightarrow> entries db' = entries db \<Longrightarrow> jlines db' = jlines db \<Longrightarrow>
     books_ok db' = books_ok db"
  by (simp add: books_ok_def entry_rows_def account_exists_def)

lemma books_ok_accounts:
  assumes "books_ok db" "keyed a_id t" "\<forall>a \<in> set (rows t). account_type_valid (a_type a)"
    "\<And>i. account_exists db i \<Longrightarrow> find_row a_id i t \<noteq> None"
  shows "books_ok (db\<lparr>accounts := t\<rparr>)"
proof -
  have "account_exists (db\<lparr>accounts := t\<rparr>) (l_account l)" if "l \<in> set (rows (jlines db))" for l
    using assms(1,4) that by (auto simp: books_ok_def account_exists_def)
  then show ?thesis using assms(1-3) by (simp add: books_ok_def entry_rows_def)
qed

lemma account_columns_type [simp]: "a_type (account_columns a) = a_type a"
  by (simp add: account_columns_def)

lemma insert_account_books: "books_ok db \<Longrightarrow> books_ok (snd (insert_account a db))"
proof -
  assume ok: "books_ok db"
  let ?t = "insert_row (\<lambda>k r. r\<lparr>a_id := k\<rparr>) (account_columns a) (accounts db)"
  have "keyed a_id ?t" using ok by (simp add: books_ok_def keyed_insert_row)
  moreover have "find_row a_id i ?t \<noteq> None" if "account_exists db i" for i
    using ok that by (simp add: books_ok_def find_row_insert_row account_exists_def)
  moreover have "account_type_valid (a_type a)" if "account_conflict db (a\<lparr>a_id := k\<rparr>) = None" for k
    using that by (simp add: account_conflict_def split: if_splits)
  ultimately show ?thesis
    using ok books_ok_accounts [OF ok, of ?t]
    by (auto simp: insert_account_def Let_def books_ok_def [of db] split: option.split)
qed

lemma store_account_books: "books_ok db \<Longrightarrow> books_ok (snd (store_account i a db))"
proof -
  assume ok: "books_ok db"
  let ?t = "update_table (\<lambda>r. a_id r = i) (rewrite_account a) (accounts db)"
  have key: "a_id (rewrite_account a r) = a_id r" "a_type (rewrite_account a r) = a_type a" for r
    by (simp_all add: rewrite_account_def)
  have "keyed a_id ?t" using ok by (simp add: books_ok_def keyed_update_table key)
  moreover have "find_row a_id j ?t \<noteq> None" if "account_exists db j" for j
    using that by (simp add: account_exists_def find_row_update_table key)
  moreover have "\<forall>b \<in> set (rows ?t). account_type_valid (a_type b)" if "account_conflict db (rewrite_account a r) = None" for r
  proof -
    have "account_type_valid (a_type a)" using that by (simp add: account_conflict_def key split: if_splits)
    then show ?thesis using ok by (auto simp: set_update_rows key books_ok_def)
  qed
  ultimately show ?thesis
    using ok books_ok_accounts [OF ok, of ?t] by (auto simp: store_account_def Let_def split: option.split)
qed

lemma archive_account_books: "books_ok db \<Longrightarrow> books_ok (snd (archive_account i arch db))"
proof -
  assume ok: "books_ok db"
  let ?t = "update_table (\<lambda>r. a_id r = i) (\<lambda>r. r\<lparr>a_archived := arch\<rparr>) (accounts db)"
  have "keyed a_id ?t" using ok by (simp add: books_ok_def keyed_update_table)
  moreover have "find_row a_id j ?t \<noteq> None" if "account_exists db j" for j
    using that unfolding account_exists_def by (simp add: find_row_update_table)
  moreover have "\<forall>b \<in> set (rows ?t). account_type_valid (a_type b)"
    using ok by (auto simp: set_update_rows books_ok_def)
  ultimately have "books_ok (db\<lparr>accounts := ?t\<rparr>)" using books_ok_accounts [OF ok, of ?t] by simp
  then show ?thesis using ok by (auto simp: archive_account_def split: sum.split)
qed

lemmas ledger_write_defs = insert_account_def store_account_def create_account_def update_account_def
  archive_account_def save_period_def lock_period_def store_vat_rate_def save_vat_rate_def save_settings_def

lemma same_journal:
  "journal_extends db (snd (insert_account a db))" "journal_extends db (snd (store_account i a db))"
  "journal_extends db (snd (create_account ck a db))" "journal_extends db (snd (update_account i a db))"
  "journal_extends db (snd (archive_account i arch db))" "journal_extends db (snd (lock_period ck p db))"
  "journal_extends db (snd (save_vat_rate v db))" "journal_extends db (snd (save_settings ck s db))"
  by (simp_all add: ledger_write_defs Let_def split: option.split sum.split)

lemma same_books:
  "books_ok db \<Longrightarrow> books_ok (snd (create_account ck a db))"
  "books_ok db \<Longrightarrow> books_ok (snd (update_account i a db))"
  using insert_account_books store_account_books
  by (simp_all add: create_account_def update_account_def Let_def split: option.split sum.split)

lemma other_tables_books:
  "books_ok (snd (lock_period ck p db)) = books_ok db" "books_ok (snd (save_vat_rate v db)) = books_ok db"
  "books_ok (snd (save_settings ck s db)) = books_ok db"
  by (rule books_ok_cong; simp add: ledger_write_defs Let_def split: option.split sum.split)+

interpretation create_account_w: books_writer "create_account ck a" for ck a
  by unfold_locales (simp_all add: same_books same_journal)

interpretation update_account_w: books_writer "update_account i a" for i a
  by unfold_locales (simp_all add: same_books same_journal)

interpretation archive_account_w: books_writer "archive_account i arch" for i arch
  by unfold_locales (simp_all add: archive_account_books same_journal)

interpretation lock_period_w: books_writer "lock_period ck p" for ck p
  by unfold_locales (simp_all add: other_tables_books same_journal)

interpretation save_vat_rate_w: books_writer "save_vat_rate v" for v
  by unfold_locales (simp_all add: other_tables_books same_journal)

interpretation save_settings_w: books_writer "save_settings ck s" for ck s
  by unfold_locales (simp_all add: other_tables_books same_journal)

interpretation post_w: books_writer "post ck e" for ck e
  by unfold_locales (simp_all add: post_keeps post_extends)

interpretation post_from_w: books_writer "post_from ck date memo src src_id ps" for ck date memo src src_id ps
  by unfold_locales (simp_all add: post_from_def post_keeps post_extends)

lemma reverse_entry_keeps: "books_ok db \<Longrightarrow> books_ok (snd (reverse_entry ck i date memo db))"
  by (simp add: reverse_entry_def post_keeps split: sum.split)

lemma reverse_entry_extends: "journal_extends db (snd (reverse_entry ck i date memo db))"
  by (simp add: reverse_entry_def post_extends split: sum.split)

interpretation reverse_w: books_writer "reverse_entry ck i date memo" for ck i date memo
  by unfold_locales (simp_all add: reverse_entry_keeps reverse_entry_extends)

section \<open>Properties\<close>

text \<open>C9: \<open>Post\<close> succeeds exactly on an entry that passes every check, and then the stored entry has
  the posted lines in order, balances, and is the only change to the database; a refused entry changes
  nothing.\<close>

theorem post_stores_exactly:
  assumes ok: "books_ok db" and run: "post ck e db = (r, db')"
  shows "if postable ck e db
     then \<exists>en. r = Inr en \<and> e_id en = next_id (entries db) \<and> get_entry db' (e_id en) = Inr en \<and>
            List.map line_side (e_lines en) = List.map line_side (e_lines e) \<and> balanced en \<and>
            e_date en = e_date (stamped ck e) \<and>
            db' = db\<lparr>entries := entries db', jlines := jlines db'\<rparr> \<and>
            rows (entries db') = rows (entries db) @ [en\<lparr>e_lines := []\<rparr>] \<and>
            (\<forall>i. i \<noteq> e_id en \<longrightarrow> entry_rows db' i = entry_rows db i)
     else db' = db \<and> \<not> res_ok r"
  using run
proof (cases rule: post_cases)
  case (refused err)
  then show ?thesis by simp
next
  case (posted k)
  have ls: "e_lines (stamped ck e) = e_lines e" by (simp add: stamped_def)
  have bal: "lines_balanced (e_lines e)" using posted(3) by (simp add: postable_def)
  have ok': "books_ok db'" using insert_entry_books [OF posted(1) ok] bal ls by simp
  note rd = insert_entry_read [OF posted(1) ok' ok] and w = posted(1) [unfolded insert_entry_tx_iff]
  let ?en = "(stamped ck e)\<lparr>e_id := k, e_lines := lines_for db' k\<rparr>"
  have "balanced ?en" using bal sides_balanced [OF rd(2)] ls by (simp add: balanced_def)
  moreover have "rows (entries db') = rows (entries db) @ [?en\<lparr>e_lines := []\<rparr>]" using w by simp
  moreover have "db' = db\<lparr>entries := entries db', jlines := jlines db'\<rparr>" using w by simp
  moreover have "\<forall>i. i \<noteq> k \<longrightarrow> entry_rows db' i = entry_rows db i"
    using insert_entry_rows [OF posted(1) ok] by simp
  ultimately show ?thesis
    using posted(2,3) rd ls w by (simp add: exI [of _ ?en])
qed

definition demo_account :: "int \<Rightarrow> string \<Rightarrow> string \<Rightarrow> string \<Rightarrow> account" where
  "demo_account i code typ key =
     \<lparr>a_id = i, a_code = code, a_name = code, a_type = typ, a_parent = 0, a_system_key = key, a_descr = '''',
      a_archived = False, a_created = '''', a_debit_total = 0, a_credit_total = 0, a_balance = 0\<rparr>"

definition demo_period :: period where
  "demo_period = \<lparr>p_id = 1, p_starts = ''2024-01-01'', p_ends = ''2024-03-31'', p_locked = True, p_locked_at = '''', p_note = ''''\<rparr>"

definition demo_books :: acct_db where
  "demo_books =
     \<lparr>accounts = \<lparr>rows = [demo_account 1 ''1000'' t_asset sys_bank, demo_account 2 ''1200'' t_asset sys_ar,
          demo_account 3 ''4000'' t_income sys_sales, demo_account 4 ''2100'' t_liability sys_vat_output,
          demo_account 5 ''6000'' t_expense '''', demo_account 6 ''2110'' t_liability sys_vat_input,
          demo_account 7 ''3000'' t_equity sys_capital, demo_account 8 ''2500'' t_liability sys_owner_loan], next_id = 9\<rparr>,
      vat_rates = \<lparr>rows = [\<lparr>r_id = 1, r_code = ''STD'', r_name = ''Standard'', r_bp = 2100, r_kind = vat_standard, r_archived = False\<rparr>], next_id = 2\<rparr>,
      entries = \<lparr>rows = [], next_id = 1\<rparr>, jlines = \<lparr>rows = [], next_id = 1\<rparr>,
      sequences = [\<lparr>q_name = ''invoice'', q_prefix = ''INV-'', q_next = 1, q_padding = 4\<rparr>,
                   \<lparr>q_name = ''credit_note'', q_prefix = ''CN-'', q_next = 1, q_padding = 4\<rparr>],
      invoices = \<lparr>rows = [], next_id = 1\<rparr>, invoice_lines = \<lparr>rows = [], next_id = 1\<rparr>,
      payments = \<lparr>rows = [], next_id = 1\<rparr>, expenses = \<lparr>rows = [], next_id = 1\<rparr>, fundings = \<lparr>rows = [], next_id = 1\<rparr>,
      periods = \<lparr>rows = [demo_period], next_id = 2\<rparr>,
      settings_row = Some \<lparr>s_currency = ''EUR'', s_symbol = '''', s_terms_days = 14, s_vat_rate = 1, s_fiscal_month = 1, s_updated = ''''\<rparr>,
      crm_clients = [(1, ''Acme'')], crm_engagements = [], crm_time_entries = [(7, False)]\<rparr>"

definition demo_clock :: clock where
  "demo_clock = \<lparr>now_stamp = ''2024-05-01T10:00:00Z'', today = ''2024-05-01''\<rparr>"

definition demo_postings :: "posting list" where
  "demo_postings = [debit 1 500 ''cash'', credit 3 500 ''sale'']"

definition demo_entry :: entry where
  "demo_entry = blank_entry\<lparr>e_date := ''2024-05-01'', e_lines := List.map posting_line demo_postings\<rparr>"

lemma demo_books_ok: "books_ok demo_books"
  by (simp add: books_ok_def keyed_def demo_books_def demo_account_def account_type_valid_def)

lemma demo_unlocked: "lock_covering demo_books ''2024-05-01'' = None"
  by (simp add: lock_covering_None demo_books_def demo_period_def covers_def less_eq_char_def less_char_def)

lemma demo_date: "valid_date ''2024-05-01'' = None"
  by (simp add: valid_date_def parse_date_def digit_val_def parse_nat_def valid_civil_def days_in_def)

lemma demo_postable: "postable demo_clock demo_entry demo_books"
  using demo_date demo_unlocked
  by (simp add: postable_def stamped_def demo_entry_def blank_entry_def demo_postings_def posting_line_def debit_def
      credit_def lines_postable_def line_ok_def account_open_def find_row_def demo_books_def demo_account_def
      first_row_Cons lines_balanced_def entry_total_def add64_def wrap64_id in64_def)

lemma post_stores_exactly_witness:
  "\<exists>en. fst (post demo_clock demo_entry demo_books) = Inr en \<and> e_id en = 1 \<and> balanced en"
  using post_stores_exactly [OF demo_books_ok surjective_pairing, of demo_clock demo_entry] demo_postable
  by (auto simp: demo_books_def)

text \<open>C23: A reversal is a new entry that moves every account back by exactly what the original moved it,
  whatever the accounts and amounts; the original stays as it was.\<close>

theorem reversal_cancels:
  assumes ok: "books_ok db" and run: "reverse_entry ck i date memo db = (Inr en, db')"
  shows "e_reverses en = i \<and> e_id en \<noteq> i \<and> entry_rows db' i = entry_rows db i \<and>
    net_of acct (entry_rows db' (e_id en)) = - net_of acct (entry_rows db' i)"
proof -
  obtain h where h: "find_row e_id i (entries db) = Some h" using run
    by (auto simp: reverse_entry_def get_entry_def split: option.splits)
  define rev where "rev = reversal ck date memo (h\<lparr>e_lines := lines_for db i\<rparr>)"
  have rev: "e_lines rev = List.map mirror (lines_for db i)" "e_reverses rev = e_id h"
    by (simp_all add: rev_def reversal_def)
  have hid: "e_id h = i" "h \<in> set (rows (entries db))" using find_row_Some [OF h] by auto
  have "post ck rev db = (Inr en, db')" using run by (simp add: reverse_entry_def get_entry_def h rev_def)
  then show ?thesis
  proof (cases rule: post_cases)
    case (posted k)
    note w = posted(1) [unfolded insert_entry_tx_iff]
    have ls: "e_lines (stamped ck rev) = List.map mirror (lines_for db i)" "e_reverses (stamped ck rev) = i"
      by (simp_all add: stamped_def rev hid)
    have ok': "books_ok db'"
      using insert_entry_books [OF posted(1) ok] posted(3) by (simp add: postable_def ls rev)
    have en: "en = (stamped ck rev)\<lparr>e_id := k, e_lines := lines_for db' k\<rparr>"
      using insert_entry_read(1) [OF posted(1) ok' ok] posted(2) by simp
    have ik: "i \<noteq> k" using w hid ok by (auto simp: books_ok_def keyed_def)
    show ?thesis
      using ik by (simp add: en ls insert_entry_rows [OF posted(1) ok] net_of_line_rows net_of_mirror net_of_lines_for [OF ok])
  qed simp
qed

text \<open>The books after that post, written out.\<close>

definition demo_posted :: acct_db where
  "demo_posted =
     demo_books\<lparr>entries := \<lparr>rows = [(stamped demo_clock demo_entry)\<lparr>e_id := 1, e_lines := []\<rparr>], next_id = 2\<rparr>,
       jlines := \<lparr>rows = line_rows 1 1 0 (List.map posting_line demo_postings), next_id = 3\<rparr>\<rparr>"

lemmas sys_key_defs = sys_bank_def sys_ar_def sys_vat_output_def sys_vat_input_def sys_sales_def
  sys_capital_def sys_owner_loan_def

lemmas demo_defs = demo_books_def demo_account_def demo_postings_def posting_line_def debit_def credit_def

lemma demo_posted_rows:
  "entry_rows demo_posted 1 = line_rows 1 1 0 (List.map posting_line demo_postings)"
  "get_entry demo_posted 1 = Inr ((stamped demo_clock demo_entry)\<lparr>e_id := 1, e_lines := lines_for demo_posted 1\<rparr>)"
  by (simp_all add: entry_rows_def get_entry_def find_row_def first_row_Cons demo_posted_def demo_defs)

lemma demo_posted_ok: "books_ok demo_posted"
  by (simp add: books_ok_def keyed_def demo_posted_def demo_defs account_type_valid_def line_ok_def
      account_exists_def find_row_def first_row_Cons entry_rows_def lines_balanced_def add64_def)

lemma demo_posted_lines:
  "lines_for demo_posted 1 = List.map (joined demo_posted) (line_rows 1 1 0 (List.map posting_line demo_postings))"
  using line_rows_sorted [of 1 1 0 "List.map posting_line demo_postings"]
  by (simp add: lines_for_books [OF demo_posted_ok] demo_posted_rows sort_key_id_if_sorted comp_def)

lemma demo_open: "account_open demo_posted 1" "account_open demo_posted 3" "periods demo_posted = periods demo_books"
  by (simp_all add: account_open_def find_row_def first_row_Cons demo_posted_def demo_defs)

lemma src_manual_not_Nil [simp]: "src_manual \<noteq> []"
  by (simp add: src_manual_def)

lemma demo_reversible:
  "postable demo_clock (reversal demo_clock '''' '''' ((stamped demo_clock demo_entry)\<lparr>e_id := 1, e_lines := lines_for demo_posted 1\<rparr>)) demo_posted"
  (is "postable _ ?e _")
proof -
  have d: "e_date (stamped demo_clock ?e) = ''2024-05-01''" "e_source (stamped demo_clock ?e) = src_manual"
    by (simp_all add: stamped_date stamped_source reversal_def demo_entry_def blank_entry_def demo_clock_def)
  have "lock_covering demo_posted ''2024-05-01'' = None"
    using demo_unlocked by (simp add: lock_covering_None demo_open)
  moreover have l: "e_lines ?e = List.map mirror (List.map (joined demo_posted) (line_rows 1 1 0 (List.map posting_line demo_postings)))"
    by (simp add: reversal_def demo_posted_lines)
  moreover have "lines_postable demo_posted (e_lines ?e)"
    unfolding l by (simp add: lines_postable_def line_ok_def demo_postings_def posting_line_def debit_def credit_def mirror_def demo_open)
  moreover have "lines_balanced (e_lines ?e)" "entry_total ?e \<noteq> 0" "2 \<le> length (e_lines ?e)"
    unfolding entry_total_def l
    by (simp_all add: lines_balanced_def demo_postings_def posting_line_def debit_def credit_def mirror_def add64_def wrap64_id in64_def)
  ultimately show ?thesis using demo_date d unfolding postable_def by simp
qed

lemma reversal_cancels_witness:
  "\<exists>en. fst (reverse_entry demo_clock 1 '''' '''' demo_posted) = Inr en \<and> e_reverses en = 1 \<and>
     net_of 3 (entry_rows (snd (reverse_entry demo_clock 1 '''' '''' demo_posted)) (e_id en)) =
       - net_of 3 (entry_rows (snd (reverse_entry demo_clock 1 '''' '''' demo_posted)) 1)"
proof -
  have "reverse_entry demo_clock 1 '''' '''' demo_posted = post demo_clock (reversal demo_clock '''' '''' ((stamped demo_clock demo_entry)\<lparr>e_id := 1, e_lines := lines_for demo_posted 1\<rparr>)) demo_posted"
    by (simp add: reverse_entry_def demo_posted_rows(2))
  then obtain en db' where run: "reverse_entry demo_clock 1 '''' '''' demo_posted = (Inr en, db')"
    using demo_reversible posted_result [OF demo_posted_ok] by metis
  then show ?thesis using reversal_cancels [OF demo_posted_ok run] by simp
qed

text \<open>Editing an account keeps its id and system key, refuses a change of type once it has postings, and
  touches no other account. It stores the archived flag it is given, so that it archives even a system account,
  which \<open>ArchiveAccount\<close> refuses.\<close>

theorem update_account_effect:
  assumes ok: "books_ok db" and old: "find_row a_id i (accounts db) = Some old"
    and run: "update_account i a db = (Inr r, db')"
  shows "a_id r = i \<and> a_archived r = a_archived a \<and> a_system_key r = a_system_key old \<and>
    (a_type r \<noteq> a_type old \<longrightarrow> \<not> account_has_postings db i) \<and> get_account db' i = Inr r \<and>
    (\<forall>j. j \<noteq> i \<longrightarrow> get_account db' j = get_account db j)"
proof -
  let ?a = "normalize_account a" and ?t = "update_table (\<lambda>r. a_id r = i) (rewrite_account (normalize_account a)) (accounts db)"
  have key: "a_id (rewrite_account b x) = a_id x" for b x by (simp add: rewrite_account_def)
  have hid: "a_id old = i" using find_row_Some [OF old] by simp
  have st: "store_account i ?a db = (Inr r, db')" and ty: "a_type ?a \<noteq> a_type old \<longrightarrow> \<not> account_has_postings db i"
    using run old by (auto simp: update_account_def get_account_def Let_def split: option.splits if_splits)
  have found: "find_row a_id j ?t = map_option (\<lambda>x. if a_id x = i then rewrite_account ?a x else x) (find_row a_id j (accounts db))" for j
    by (rule find_row_update_table) (rule key)
  have db': "db' = db\<lparr>accounts := ?t\<rparr>" and r: "r = rewrite_account ?a old"
    using st old found [of i] hid by (auto simp: store_account_def get_account_def Let_def split: option.splits)
  have other: "get_account db' j = get_account db j" if "j \<noteq> i" for j
    using that found [of j] find_row_Some [of a_id j "accounts db"]
    by (auto simp: get_account_def db' split: option.splits)
  have "a_archived ?a = a_archived a" by (simp add: normalize_account_def)
  with ty hid old found [of i] other show ?thesis
    by (simp add: r rewrite_account_def get_account_def db')
qed

lemma update_account_effect_witness:
  "\<exists>r. fst (update_account 1 (demo_account 1 ''1000'' t_asset '''' \<lparr>a_archived := True\<rparr>) demo_books) = Inr r \<and>
     a_archived r \<and> a_system_key r = sys_bank \<and> \<not> res_ok (fst (archive_account 1 True demo_books))"
proof -
  let ?a = "demo_account 1 ''1000'' t_asset '''' \<lparr>a_archived := True\<rparr>"
  have "normalize_account ?a = ?a"
    by (simp add: normalize_account_def demo_account_def trim_space_printable printable_def t_asset_def to_lower_def lower_char_def)
  then have "res_ok (fst (update_account 1 ?a demo_books))"
    by (simp add: update_account_def get_account_def find_row_def first_row_Cons demo_books_def demo_account_def
        validate_account_def account_type_valid_def store_account_def account_conflict_def rewrite_account_def
        update_rows_def sys_key_defs)
  then obtain r db' where run: "update_account 1 ?a demo_books = (Inr r, db')"
    by (cases "update_account 1 ?a demo_books"; cases "fst (update_account 1 ?a demo_books)") auto
  have old: "find_row a_id 1 (accounts demo_books) = Some (demo_account 1 ''1000'' t_asset sys_bank)"
    by (simp add: find_row_def first_row_Cons demo_books_def demo_account_def)
  have "\<not> res_ok (fst (archive_account 1 True demo_books))"
    using old by (simp add: archive_account_def get_account_def demo_account_def sys_bank_def)
  with update_account_effect [OF demo_books_ok old run] run show ?thesis by (simp add: demo_account_def)
qed

text \<open>Locking a period by an id that does not exist reports the period as locked and locks nothing.\<close>

theorem lock_period_unknown_id:
  assumes "p_id p \<noteq> 0" "find_row p_id (p_id p) (periods db) = None"
    "valid_date (p_starts p) = None" "valid_date (p_ends p) = None" "p_starts p \<le> p_ends p" "p_locked p"
  shows "\<exists>q. lock_period ck p db = (Inr q, db) \<and> p_locked q \<and> p_starts q = p_starts p \<and> p_ends q = p_ends p"
proof -
  have "update_table (\<lambda>r. p_id r = p_id p) f (periods db) = periods db" for f
    using assms(2) update_rows_none [of "rows (periods db)"] by (simp add: update_table_def find_row_None)
  then show ?thesis using assms by (simp add: lock_period_def save_period_def not_less)
qed

lemma lock_period_unknown_id_witness:
  "\<exists>q. lock_period demo_clock (demo_period\<lparr>p_id := 9, p_starts := ''2024-05-01'', p_ends := ''2024-05-01''\<rparr>) demo_books =
       (Inr q, demo_books) \<and> p_locked q \<and> lock_covering demo_books ''2024-05-01'' = None"
  using lock_period_unknown_id [of "demo_period\<lparr>p_id := 9, p_starts := ''2024-05-01'', p_ends := ''2024-05-01''\<rparr>" demo_books demo_clock]
    demo_unlocked demo_date
  by (auto simp: demo_books_def demo_period_def find_row_def first_row_Cons)

end
