(* ===== verification/Invoices.thy ===== *)
theory Invoices
  imports Ledger
begin

text \<open>
  Sales documents: \<open>internal/accounting/invoice.go\<close> over \<open>invoice_repo.go\<close>. A draft may be
  changed and deleted; issuing it takes the next number of its series, posts its entry and freezes it;
  afterwards only its status and its paid total move. Two concurrent requests are one after the other
  here: each operation runs to its end, as SQLite's single writer makes its transaction do.
\<close>

section \<open>Reading\<close>

definition client_name :: "acct_db \<Rightarrow> int \<Rightarrow> string" where
  "client_name db c = (case map_of (crm_clients db) c of None \<Rightarrow> '''' | Some n \<Rightarrow> n)"

definition engagement_name :: "acct_db \<Rightarrow> int \<Rightarrow> string" where
  "engagement_name db e = (case map_of (crm_engagements db) e of None \<Rightarrow> '''' | Some n \<Rightarrow> n)"

definition scan_invoice :: "acct_db \<Rightarrow> invoice \<Rightarrow> invoice" where
  "scan_invoice db i =
     i\<lparr>i_client_name := client_name db (i_client i), i_engagement_name := engagement_name db (i_engagement i)\<rparr>"

definition invoice_lines_of :: "acct_db \<Rightarrow> int \<Rightarrow> invoice_line list" where
  "invoice_lines_of db i =
     sort_key (\<lambda>l. (il_ordinal l, il_id l)) (filter (\<lambda>l. il_invoice l = i) (rows (invoice_lines db)))"

definition get_invoice :: "acct_db \<Rightarrow> int \<Rightarrow> acct_error + invoice" where
  "get_invoice db i =
     (case find_row i_id i (invoices db) of
        None \<Rightarrow> Inl NotFound
      | Some r \<Rightarrow> Inr ((scan_invoice db r)\<lparr>i_lines := invoice_lines_of db i\<rparr>))"

definition outstanding :: "invoice \<Rightarrow> money" where
  "outstanding i = sub64 (i_total i) (i_paid i)"

text \<open>SQLite's \<open>LIKE\<close>: \<open>%\<close> for any run of bytes, \<open>_\<close> for one character, ASCII letters
  without regard to case.\<close>

definition drop_cont :: "string \<Rightarrow> string" where
  "drop_cont s = dropWhile (\<lambda>c. 128 \<le> (of_char c :: nat) \<and> (of_char c :: nat) < 192) s"

lemma length_drop_cont: "length (drop_cont s) \<le> length s"
  by (simp add: drop_cont_def length_dropWhile_le)

function like :: "string \<Rightarrow> string \<Rightarrow> bool" where
  "like [] s = (s = [])"
| "like (p # ps) [] = (p = CHR ''%'' \<and> like ps [])"
| "like (p # ps) (c # cs) =
     (if p = CHR ''%'' then like ps (c # cs) \<or> like (p # ps) cs
      else if p = CHR ''_'' then like ps (drop_cont cs)
      else lower_char p = lower_char c \<and> like ps cs)"
  by pat_completeness auto
termination
  by (relation "measure (\<lambda>(p, s). length p + length s)") (auto intro: le_imp_less_Suc length_drop_cont le_SucI)

record invoice_filter =
  if_client :: int
  if_engagement :: int
  if_status :: string
  if_kind :: string
  if_from :: string
  if_to :: string
  if_search :: string
  if_limit :: int

definition invoice_matches :: "acct_db \<Rightarrow> invoice_filter \<Rightarrow> invoice \<Rightarrow> bool" where
  "invoice_matches db f i =
     (let s = trim_space (if_search f); pat = ''%'' @ s @ ''%'' in
      (if_client f = 0 \<or> i_client i = if_client f) \<and> (if_engagement f = 0 \<or> i_engagement i = if_engagement f) \<and>
      (if_status f = '''' \<or> i_status i = if_status f) \<and> (if_kind f = '''' \<or> i_kind i = if_kind f) \<and>
      (if_from f = '''' \<or> if_from f \<le> i_issue_date i) \<and> (if_to f = '''' \<or> i_issue_date i \<le> if_to f) \<and>
      (s = '''' \<or> like pat (i_number i) \<or> (map_of (crm_clients db) (i_client i) \<noteq> None \<and> like pat (client_name db (i_client i)))
        \<or> like pat (i_notes i)))"

definition list_invoices_repo :: "invoice_filter \<Rightarrow> acct_db \<Rightarrow> invoice list" where
  "list_invoices_repo f db =
     take (nat (if_limit f)) (desc_by (\<lambda>i. (i_issue_date i, i_id i))
       (List.map (scan_invoice db) (filter (invoice_matches db f) (rows (invoices db)))))"

definition list_invoices :: "invoice_filter \<Rightarrow> acct_db \<Rightarrow> invoice list" where
  "list_invoices f db =
     list_invoices_repo (f\<lparr>if_limit := (if if_limit f \<le> 0 \<or> 500 < if_limit f then 200 else if_limit f)\<rparr>) db"

section \<open>Drafts in the database\<close>

definition client_exists :: "acct_db \<Rightarrow> int \<Rightarrow> bool" where
  "client_exists db c = (map_of (crm_clients db) c \<noteq> None)"

definition vat_rate_exists :: "acct_db \<Rightarrow> int \<Rightarrow> bool" where
  "vat_rate_exists db i = (find_row r_id i (vat_rates db) \<noteq> None)"

fun insert_invoice_lines :: "int \<Rightarrow> nat \<Rightarrow> invoice_line list \<Rightarrow> acct_db \<Rightarrow> acct_error + acct_db" where
  "insert_invoice_lines iid n [] db = Inr db"
| "insert_invoice_lines iid n (l # ls) db =
     (if (il_vat_rate l \<noteq> 0 \<and> \<not> vat_rate_exists db (il_vat_rate l)) \<or> \<not> account_exists db (il_income l)
      then Inl (Invalid (MissingReference ''invoice line''))
      else insert_invoice_lines iid (n + 1) ls
             (db\<lparr>invoice_lines := insert_row (\<lambda>k r. r\<lparr>il_id := k\<rparr>) (l\<lparr>il_invoice := iid, il_ordinal := int n\<rparr>) (invoice_lines db)\<rparr>))"

text \<open>The stored columns of an invoice: no lines, no joined names.\<close>

definition invoice_columns :: "invoice \<Rightarrow> invoice" where
  "invoice_columns i = i\<lparr>i_lines := [], i_client_name := '''', i_engagement_name := ''''\<rparr>"

definition invoice_status_valid :: "string \<Rightarrow> bool" where
  "invoice_status_valid s = (s \<in> {st_draft, st_issued, st_part_paid, st_paid, st_void})"

definition create_invoice_tx :: "invoice \<Rightarrow> acct_db \<Rightarrow> acct_error + (int \<times> acct_db)" where
  "create_invoice_tx i db =
     (if i_kind i \<notin> {kind_invoice, kind_credit_note} \<or> \<not> invoice_status_valid (i_status i)
        then Inl (Invalid (CheckRejected ''invoice''))
      else if i_number i \<noteq> '''' \<and> (\<exists>r \<in> set (rows (invoices db)). i_number r = i_number i) then Inl (Db UniqueFailed)
      else if \<not> client_exists db (i_client i) then Inl (Invalid (MissingReference ''invoice''))
      else
        let k = next_id (invoices db);
            db1 = db\<lparr>invoices := insert_row (\<lambda>k r. r\<lparr>i_id := k\<rparr>) ((invoice_columns i)\<lparr>i_issued_at := ''''\<rparr>) (invoices db)\<rparr>
        in case insert_invoice_lines k 0 (i_lines i) db1 of Inl e \<Rightarrow> Inl e | Inr db2 \<Rightarrow> Inr (k, db2))"

definition create_invoice :: "invoice \<Rightarrow> acct_db \<Rightarrow> (acct_error + invoice) \<times> acct_db" where
  "create_invoice i db =
     (case with_tx (create_invoice_tx i) db of
        (Inl e, db') \<Rightarrow> (Inl e, db')
      | (Inr k, db') \<Rightarrow> (get_invoice db' k, db'))"

definition is_draft :: "int \<Rightarrow> invoice \<Rightarrow> bool" where
  "is_draft i r = (i_id r = i \<and> i_status r = st_draft)"

definition rewrite_draft :: "invoice \<Rightarrow> invoice \<Rightarrow> invoice" where
  "rewrite_draft i r =
     r\<lparr>i_client := i_client i, i_engagement := i_engagement i, i_issue_date := i_issue_date i,
       i_due_date := i_due_date i, i_terms := i_terms i, i_subtotal := i_subtotal i, i_vat := i_vat i,
       i_total := i_total i, i_reverse := i_reverse i, i_customer_vat := i_customer_vat i,
       i_bill_to := i_bill_to i, i_notes := i_notes i\<rparr>"

definition update_draft_tx :: "int \<Rightarrow> invoice \<Rightarrow> acct_db \<Rightarrow> acct_error + (unit \<times> acct_db)" where
  "update_draft_tx k i db =
     (if \<not> (\<exists>r \<in> set (rows (invoices db)). is_draft k r) then Inl (Invalid (InvoiceFault NoLongerDraft))
      else if \<not> client_exists db (i_client i) then Inl (Invalid (MissingReference ''invoice''))
      else
        let db1 = db\<lparr>invoices := update_table (is_draft k) (rewrite_draft i) (invoices db),
                     invoice_lines := delete_rows (\<lambda>l. il_invoice l = k) (invoice_lines db)\<rparr>
        in case insert_invoice_lines k 0 (i_lines i) db1 of Inl e \<Rightarrow> Inl e | Inr db2 \<Rightarrow> Inr ((), db2))"

definition update_draft_invoice :: "int \<Rightarrow> invoice \<Rightarrow> acct_db \<Rightarrow> (acct_error + invoice) \<times> acct_db" where
  "update_draft_invoice k i db =
     (case with_tx (update_draft_tx k i) db of
        (Inl e, db') \<Rightarrow> (Inl e, db')
      | (Inr _, db') \<Rightarrow> (get_invoice db' k, db'))"

text \<open>Deleting an invoice takes its lines with it (CASCADE) and is refused while a payment refers to
  it (RESTRICT).\<close>

definition delete_draft_invoice :: "int \<Rightarrow> acct_db \<Rightarrow> (acct_error + unit) \<times> acct_db" where
  "delete_draft_invoice k db =
     (if \<not> (\<exists>r \<in> set (rows (invoices db)). is_draft k r) then (Inl (Invalid (InvoiceFault NotADraft)), db)
      else if \<exists>y \<in> set (rows (payments db)). y_invoice y = k then (Inl (Db ForeignKeyFailed), db)
      else (Inr (), db\<lparr>invoices := delete_rows (is_draft k) (invoices db),
                       invoice_lines := delete_rows (\<lambda>l. il_invoice l = k) (invoice_lines db)\<rparr>))"

section \<open>Preparing a draft\<close>

definition prepare_line :: "acct_db \<Rightarrow> settings \<Rightarrow> int \<Rightarrow> vat_rate option \<Rightarrow> nat \<Rightarrow> invoice_line \<Rightarrow> acct_error + invoice_line" where
  "prepare_line db st income reverse n l0 =
     (let l = l0\<lparr>il_descr := trim_space (il_descr l0),
                 il_quantity := (if il_quantity l0 = 0 then 1000 else il_quantity l0),
                 il_income := (if il_income l0 = 0 then income else il_income l0)\<rparr>
      in
      if il_descr l = '''' then Inl (Invalid (InvoiceFault (LineDescr (n + 1)))) else
      case get_account db (il_income l) of
        Inl _ \<Rightarrow> Inl (Invalid (InvoiceFault (LineNoAccount (n + 1) (il_income l))))
      | Inr a \<Rightarrow>
          if a_type a \<noteq> t_income then Inl (Invalid (InvoiceFault (LineNotIncome (n + 1) (a_code a) (a_name a) (a_type a)))) else
          let l1 = l\<lparr>il_net := Money.extend (il_quantity l) (il_price l), il_ordinal := int n\<rparr> in
          case reverse of
            Some rr \<Rightarrow> Inr (l1\<lparr>il_vat_rate := r_id rr, il_vat_bp := 0, il_vat := 0\<rparr>)
          | None \<Rightarrow>
              let rid = (if il_vat_rate l1 = 0 then s_vat_rate st else il_vat_rate l1) in
              if rid = 0 then Inr (l1\<lparr>il_vat_rate := rid, il_vat := vat (il_net l1) (il_vat_bp l1)\<rparr>)
              else case get_vat_rate db rid of
                Inl _ \<Rightarrow> Inl (Invalid (InvoiceFault (LineNoRate (n + 1) rid)))
              | Inr rate \<Rightarrow> Inr (l1\<lparr>il_vat_rate := rid, il_vat_bp := r_bp rate, il_vat := vat (il_net l1) (r_bp rate)\<rparr>))"

fun prepare_lines :: "acct_db \<Rightarrow> settings \<Rightarrow> int \<Rightarrow> vat_rate option \<Rightarrow> nat \<Rightarrow> invoice_line list \<Rightarrow> acct_error + invoice_line list" where
  "prepare_lines db st income reverse n [] = Inr []"
| "prepare_lines db st income reverse n (l # ls) =
     (case prepare_line db st income reverse n l of
        Inl e \<Rightarrow> Inl e
      | Inr l' \<Rightarrow> (case prepare_lines db st income reverse (n + 1) ls of Inl e \<Rightarrow> Inl e | Inr ls' \<Rightarrow> Inr (l' # ls')))"

definition totalled :: "invoice \<Rightarrow> invoice_line list \<Rightarrow> invoice" where
  "totalled i ls =
     (let sub = foldl add64 0 (List.map il_net ls); v = foldl add64 0 (List.map il_vat ls)
      in i\<lparr>i_lines := ls, i_subtotal := sub, i_vat := v, i_total := add64 sub v\<rparr>)"

definition reverse_rate :: "acct_db \<Rightarrow> bool \<Rightarrow> acct_error + vat_rate option" where
  "reverse_rate db rc =
     (if rc then (case vat_rate_by_kind db vat_reverse_charge of Inl e \<Rightarrow> Inl e | Inr r \<Rightarrow> Inr (Some r)) else Inr None)"

definition dated_draft :: "clock \<Rightarrow> settings \<Rightarrow> invoice \<Rightarrow> invoice" where
  "dated_draft ck st i0 =
     (let issue = (if i_issue_date i0 = '''' then today ck else i_issue_date i0);
          terms = (if i_terms i0 \<le> 0 then s_terms_days st else i_terms i0);
          due = (if i_due_date i0 = '''' then add_days issue terms else i_due_date i0)
      in i0\<lparr>i_issue_date := issue, i_terms := terms, i_due_date := due\<rparr>)"

definition trimmed_draft :: "invoice \<Rightarrow> invoice" where
  "trimmed_draft i =
     i\<lparr>i_notes := trim_space (i_notes i), i_bill_to := trim_space (i_bill_to i),
       i_customer_vat := trim_space (i_customer_vat i)\<rparr>"

definition prepare_draft :: "clock \<Rightarrow> acct_db \<Rightarrow> invoice \<Rightarrow> acct_error + invoice" where
  "prepare_draft ck db i0 =
     (if i_client i0 = 0 then Inl (Invalid (InvoiceFault NoClient)) else
      case valid_date (if i_issue_date i0 = '''' then today ck else i_issue_date i0) of
        Some f \<Rightarrow> Inl (Invalid (PostFault f)) | None \<Rightarrow>
      case get_settings db of Inl e \<Rightarrow> Inl e | Inr st \<Rightarrow>
      let i = dated_draft ck st i0 in
      case valid_date (i_due_date i) of Some f \<Rightarrow> Inl (Invalid (PostFault f)) | None \<Rightarrow>
      if i_due_date i < i_issue_date i then Inl (Invalid (InvoiceFault (DueBeforeIssue (i_due_date i) (i_issue_date i)))) else
      if i_lines i = [] then Inl (Invalid (InvoiceFault NoLines)) else
      let t = trimmed_draft i in
      if i_reverse t \<and> i_customer_vat t = '''' then Inl (Invalid (InvoiceFault NoCustomerVat)) else
      case account_by_system_key db sys_sales of Inl e \<Rightarrow> Inl e | Inr income \<Rightarrow>
      case reverse_rate db (i_reverse t) of Inl e \<Rightarrow> Inl e | Inr rr \<Rightarrow>
      case prepare_lines db st (a_id income) rr 0 (i_lines t) of Inl e \<Rightarrow> Inl e | Inr ls \<Rightarrow>
      Inr (totalled t ls))"

definition create_draft :: "clock \<Rightarrow> invoice \<Rightarrow> acct_db \<Rightarrow> (acct_error + invoice) \<times> acct_db" where
  "create_draft ck i0 db =
     (let i = i0\<lparr>i_kind := (if i_kind i0 = '''' then kind_invoice else i_kind i0)\<rparr> in
      if i_kind i \<noteq> kind_invoice \<and> i_kind i \<noteq> kind_credit_note then (Inl (Invalid (InvoiceFault BadInvoiceKind)), db) else
      case prepare_draft ck db i of
        Inl e \<Rightarrow> (Inl e, db)
      | Inr p \<Rightarrow> create_invoice (p\<lparr>i_status := st_draft, i_number := '''', i_created := now_stamp ck\<rparr>) db)"

definition update_draft :: "clock \<Rightarrow> int \<Rightarrow> invoice \<Rightarrow> acct_db \<Rightarrow> (acct_error + invoice) \<times> acct_db" where
  "update_draft ck k i0 db =
     (case get_invoice db k of
        Inl e \<Rightarrow> (Inl e, db)
      | Inr existing \<Rightarrow>
          if \<not> editable (i_status existing)
          then (Inl (Invalid (InvoiceFault (NotEditable (i_number existing) (i_status existing)))), db) else
          case prepare_draft ck db (i0\<lparr>i_kind := i_kind existing\<rparr>) of
            Inl e \<Rightarrow> (Inl e, db)
          | Inr p \<Rightarrow> update_draft_invoice k p db)"

definition delete_draft :: "int \<Rightarrow> acct_db \<Rightarrow> (acct_error + unit) \<times> acct_db" where
  "delete_draft k db =
     (case get_invoice db k of
        Inl e \<Rightarrow> (Inl e, db)
      | Inr iv \<Rightarrow>
          if \<not> editable (i_status iv) then (Inl (Invalid (InvoiceFault (NotDeletable (i_number iv) (i_status iv)))), db)
          else delete_draft_invoice k db)"

section \<open>Issuing\<close>

definition place_posting :: "int \<Rightarrow> money \<Rightarrow> string \<Rightarrow> bool \<Rightarrow> posting" where
  "place_posting acct amount0 desc debit_side =
     (let amount = (if debit_side then amount0 else neg64 amount0)
      in if 0 \<le> amount then debit acct amount desc else credit acct (neg64 amount) desc)"

fun add_income :: "(int \<times> money) list \<Rightarrow> int \<Rightarrow> money \<Rightarrow> (int \<times> money) list" where
  "add_income [] acct m = [(acct, add64 0 m)]"
| "add_income ((a, s) # rest) acct m = (if a = acct then (a, add64 s m) # rest else (a, s) # add_income rest acct m)"

definition income_by_account :: "invoice_line list \<Rightarrow> (int \<times> money) list" where
  "income_by_account ls = foldl (\<lambda>acc l. add_income acc (il_income l) (il_net l)) [] ls"

definition vat_postings :: "acct_db \<Rightarrow> invoice \<Rightarrow> money \<Rightarrow> string \<Rightarrow> acct_error + posting list" where
  "vat_postings db iv sign label =
     (if i_vat iv = 0 then Inr []
      else case account_by_system_key db sys_vat_output of
        Inl e \<Rightarrow> Inl e
      | Inr a \<Rightarrow> Inr [place_posting (a_id a) (mul64 sign (i_vat iv)) (label @ '' VAT'') False])"

definition postings_debit :: "posting list \<Rightarrow> money" where
  "postings_debit ps = foldl add64 0 (List.map o_debit ps)"

definition postings_credit :: "posting list \<Rightarrow> money" where
  "postings_credit ps = foldl add64 0 (List.map o_credit ps)"

definition invoice_postings :: "acct_db \<Rightarrow> invoice \<Rightarrow> acct_error + posting list" where
  "invoice_postings db iv =
     (case account_by_system_key db sys_ar of
        Inl e \<Rightarrow> Inl e
      | Inr ar \<Rightarrow>
          let sign = (if i_kind iv = kind_credit_note then -1 else 1);
              label = (if i_number iv = '''' then ''invoice'' else i_number iv)
          in case vat_postings db iv sign label of
            Inl e \<Rightarrow> Inl e
          | Inr vps \<Rightarrow>
              let ps = place_posting (a_id ar) (mul64 sign (i_total iv)) (label @ em_dash @ i_client_name iv) True
                       # List.map (\<lambda>(acct, m). place_posting acct (mul64 sign m) label False) (income_by_account (i_lines iv)) @ vps
              in if postings_debit ps \<noteq> postings_credit ps
                 then Inl (Invalid (InvoiceFault (PostingsUnbalanced label (postings_debit ps) (postings_credit ps))))
                 else Inr ps)"

text \<open>\<open>strings.Replace(s, old, new, 1)\<close> for a non-empty \<open>old\<close>.\<close>

fun replace_first :: "string \<Rightarrow> string \<Rightarrow> string \<Rightarrow> string" where
  "replace_first old new [] = []"
| "replace_first old new (c # cs) =
     (if has_prefix (c # cs) old then new @ drop (length old) (c # cs) else c # replace_first old new cs)"

definition number_of :: "sequence \<Rightarrow> int \<Rightarrow> string" where
  "number_of q n = q_prefix q @ fmt_padded (nat (q_padding q)) n"

definition allocate_number_tx :: "string \<Rightarrow> acct_db \<Rightarrow> acct_error + (string \<times> acct_db)" where
  "allocate_number_tx name db =
     (case first_row (\<lambda>q. q_name q = name) (sequences db) of
        None \<Rightarrow> Inl NotFound
      | Some q \<Rightarrow>
          Inr (number_of q (q_next q),
               db\<lparr>sequences := update_rows (\<lambda>q. q_name q = name) (\<lambda>q. q\<lparr>q_next := q_next q + 1\<rparr>) (sequences db)\<rparr>))"

definition series_of :: "string \<Rightarrow> string" where
  "series_of kind = (if kind = kind_credit_note then ''credit_note'' else ''invoice'')"

definition numbered_line :: "string \<Rightarrow> posting \<Rightarrow> journal_line" where
  "numbered_line number p = (posting_line p)\<lparr>l_descr := replace_first ''invoice'' number (o_descr p)\<rparr>"

definition document_entry :: "clock \<Rightarrow> acct_db \<Rightarrow> invoice \<Rightarrow> string \<Rightarrow> posting list \<Rightarrow> entry" where
  "document_entry ck db iv number ps =
     blank_entry\<lparr>e_date := i_issue_date iv,
       e_memo := (if client_name db (i_client iv) \<noteq> '''' then number @ em_dash @ client_name db (i_client iv) else number),
       e_source := (if i_kind iv = kind_credit_note then src_credit_note else src_invoice),
       e_source_id := i_id iv, e_created := now_stamp ck,
       e_lines := List.map (numbered_line number) (filter (\<lambda>p. \<not> posting_empty p) ps)\<rparr>"

definition mark_issued :: "clock \<Rightarrow> string \<Rightarrow> int \<Rightarrow> invoice \<Rightarrow> invoice" where
  "mark_issued ck number eid r =
     r\<lparr>i_number := number, i_status := st_issued, i_entry := eid, i_issued_at := now_stamp ck\<rparr>"

definition flag_time_entries :: "int \<Rightarrow> acct_db \<Rightarrow> acct_db" where
  "flag_time_entries k db =
     (let billed = List.map il_time_entry (filter (\<lambda>l. il_invoice l = k \<and> il_time_entry l \<noteq> 0) (rows (invoice_lines db)))
      in db\<lparr>crm_time_entries := List.map (\<lambda>(t, iv). (t, iv \<or> t \<in> set billed)) (crm_time_entries db)\<rparr>)"

definition issue_invoice_tx :: "clock \<Rightarrow> int \<Rightarrow> posting list \<Rightarrow> acct_db \<Rightarrow> acct_error + (unit \<times> acct_db)" where
  "issue_invoice_tx ck k ps db =
     (case find_row i_id k (invoices db) of None \<Rightarrow> Inl NotFound | Some iv \<Rightarrow>
      if i_status iv \<noteq> st_draft then Inl (Invalid (InvoiceFault (NotDraftStatus (i_status iv)))) else
      case allocate_number_tx (series_of (i_kind iv)) db of Inl e \<Rightarrow> Inl e | Inr (number, db1) \<Rightarrow>
      case insert_entry_tx (document_entry ck db1 iv number ps) db1 of Inl e \<Rightarrow> Inl e | Inr (eid, db2) \<Rightarrow>
      if number \<noteq> '''' \<and> (\<exists>r \<in> set (rows (invoices db2)). i_id r \<noteq> k \<and> i_number r = number) then Inl (Db UniqueFailed)
      else Inr ((), flag_time_entries k (db2\<lparr>invoices := update_table (is_draft k) (mark_issued ck number eid) (invoices db2)\<rparr>)))"

definition issue_invoice :: "clock \<Rightarrow> int \<Rightarrow> posting list \<Rightarrow> acct_db \<Rightarrow> (acct_error + invoice) \<times> acct_db" where
  "issue_invoice ck k ps db =
     (case with_tx (issue_invoice_tx ck k ps) db of
        (Inl e, db') \<Rightarrow> (Inl e, db')
      | (Inr _, db') \<Rightarrow> (get_invoice db' k, db'))"

definition issue :: "clock \<Rightarrow> int \<Rightarrow> acct_db \<Rightarrow> (acct_error + invoice) \<times> acct_db" where
  "issue ck k db =
     (case get_invoice db k of Inl e \<Rightarrow> (Inl e, db) | Inr iv \<Rightarrow>
      if \<not> editable (i_status iv) then (Inl (Invalid (InvoiceFault (AlreadyIssued (i_number iv) (i_status iv)))), db) else
      if i_lines iv = [] then (Inl (Invalid (InvoiceFault IssueNoLines)), db) else
      case check_period_open db (i_issue_date iv) of Some e \<Rightarrow> (Inl e, db) | None \<Rightarrow>
      case invoice_postings db iv of Inl e \<Rightarrow> (Inl e, db) | Inr ps \<Rightarrow> issue_invoice ck k ps db)"

section \<open>After issue\<close>

definition set_invoice_status :: "int \<Rightarrow> string \<Rightarrow> acct_db \<Rightarrow> (acct_error + invoice) \<times> acct_db" where
  "set_invoice_status k s db =
     (let db' = db\<lparr>invoices := update_table (\<lambda>r. i_id r = k) (\<lambda>r. r\<lparr>i_status := s\<rparr>) (invoices db)\<rparr>
      in (get_invoice db' k, db'))"

definition void_memo :: "invoice \<Rightarrow> string \<Rightarrow> string" where
  "void_memo iv why =
     (let w = trim_space why in ''Void of '' @ i_number iv @ (if w = '''' then '''' else em_dash @ w))"

definition void :: "clock \<Rightarrow> int \<Rightarrow> string \<Rightarrow> acct_db \<Rightarrow> (acct_error + invoice) \<times> acct_db" where
  "void ck k why db =
     (case get_invoice db k of Inl e \<Rightarrow> (Inl e, db) | Inr iv \<Rightarrow>
      if i_status iv = st_draft then (Inl (Invalid (InvoiceFault VoidDraft)), db)
      else if i_status iv = st_void then (Inl (Invalid (InvoiceFault (AlreadyVoid (i_number iv)))), db)
      else if i_paid iv \<noteq> 0 then (Inl (Invalid (InvoiceFault (VoidPaid (i_number iv) (i_paid iv)))), db) else
      case check_period_open db (today ck) of Some e \<Rightarrow> (Inl e, db) | None \<Rightarrow>
      if i_entry iv \<noteq> 0 then
        (case reverse_entry ck (i_entry iv) (today ck) (void_memo iv why) db of
           (Inl e, db') \<Rightarrow> (Inl e, db')
         | (Inr _, db') \<Rightarrow> set_invoice_status k st_void db')
      else set_invoice_status k st_void db)"

definition unlinked :: "invoice_line \<Rightarrow> invoice_line" where
  "unlinked l = l\<lparr>il_id := 0, il_invoice := 0, il_time_entry := 0, il_expense := 0\<rparr>"

definition credit_draft :: "clock \<Rightarrow> invoice \<Rightarrow> invoice_line list \<Rightarrow> string \<Rightarrow> invoice" where
  "credit_draft ck orig ls why =
     \<lparr>i_id = 0, i_kind = kind_credit_note, i_number = '''', i_client = i_client orig, i_engagement = i_engagement orig,
      i_status = '''', i_issue_date = today ck, i_due_date = '''', i_terms = i_terms orig, i_subtotal = 0, i_vat = 0,
      i_total = 0, i_paid = 0, i_reverse = i_reverse orig, i_customer_vat = i_customer_vat orig, i_bill_to = i_bill_to orig,
      i_notes = trim_space (''Credit note for '' @ i_number orig @ ''. '' @ why), i_corrects = i_id orig, i_entry = 0,
      i_created = '''', i_issued_at = '''', i_lines = (if ls = [] then List.map unlinked (i_lines orig) else ls),
      i_client_name = '''', i_engagement_name = ''''\<rparr>"

definition credit_note :: "clock \<Rightarrow> int \<Rightarrow> invoice_line list \<Rightarrow> string \<Rightarrow> acct_db \<Rightarrow> (acct_error + invoice) \<times> acct_db" where
  "credit_note ck k ls why db =
     (case get_invoice db k of Inl e \<Rightarrow> (Inl e, db) | Inr orig \<Rightarrow>
      if i_kind orig \<noteq> kind_invoice then (Inl (Invalid (InvoiceFault OnlyInvoiceCredited)), db)
      else if i_status orig = st_draft then (Inl (Invalid (InvoiceFault CreditDraft)), db)
      else if i_status orig = st_void then (Inl (Invalid (InvoiceFault (CreditVoid (i_number orig)))), db)
      else create_draft ck (credit_draft ck orig ls why) db)"

definition payment_status :: "invoice \<Rightarrow> string" where
  "payment_status i =
     (if i_status i = st_void \<or> i_status i = st_draft then i_status i
      else if i_paid i = 0 then st_issued
      else if i_paid i < i_total i then st_part_paid
      else st_paid)"

definition recalc_invoice_payments :: "int \<Rightarrow> acct_db \<Rightarrow> (acct_error + invoice) \<times> acct_db" where
  "recalc_invoice_payments k db =
     (case get_invoice db k of Inl e \<Rightarrow> (Inl e, db) | Inr iv \<Rightarrow>
      case sql_sum (List.map y_amount (filter (\<lambda>y. y_invoice y = k) (rows (payments db)))) of
        Inl e \<Rightarrow> (Inl e, db)
      | Inr paid \<Rightarrow>
          let s = payment_status (iv\<lparr>i_paid := paid\<rparr>);
              db' = db\<lparr>invoices := update_table (\<lambda>r. i_id r = k) (\<lambda>r. r\<lparr>i_paid := paid, i_status := s\<rparr>) (invoices db)\<rparr>
          in (get_invoice db' k, db'))"

section \<open>The contract of a writer of documents\<close>

text \<open>The numbers a series has given out, and the invariant that makes the series unique and gap-free:
  the documents that left the draft state carry exactly the numbers from 1 to the counter.\<close>

definition issued_numbers :: "acct_db \<Rightarrow> string \<Rightarrow> string list" where
  "issued_numbers db s =
     List.map i_number (filter (\<lambda>r. series_of (i_kind r) = s \<and> i_status r \<noteq> st_draft) (rows (invoices db)))"

lemma issued_numbers_alt:
  "issued_numbers db s =
     List.map i_number (filter (\<lambda>r. series_of (i_kind r) = s) (filter (\<lambda>r. i_status r \<noteq> st_draft) (rows (invoices db))))"
proof -
  have "filter (\<lambda>r. series_of (i_kind r) = s \<and> i_status r \<noteq> st_draft) xs =
      filter (\<lambda>r. series_of (i_kind r) = s) (filter (\<lambda>r. i_status r \<noteq> st_draft) xs)" for xs :: "invoice list"
    by (induction xs) auto
  then show ?thesis by (simp only: issued_numbers_def)
qed

definition numbering_ok :: "acct_db \<Rightarrow> string \<Rightarrow> bool" where
  "numbering_ok db s \<longleftrightarrow>
     (\<forall>q. first_row (\<lambda>q. q_name q = s) (sequences db) = Some q \<longrightarrow>
        1 \<le> q_next q \<and> mset (issued_numbers db s) = image_mset (number_of q) (mset [1..q_next q - 1]))"

definition docs_ok :: "acct_db \<Rightarrow> bool" where
  "docs_ok db \<longleftrightarrow>
     keyed i_id (invoices db) \<and> keyed il_id (invoice_lines db) \<and>
     (\<forall>l \<in> set (rows (invoice_lines db)). il_invoice l < next_id (invoices db)) \<and>
     (\<forall>r \<in> set (rows (invoices db)). i_status r = st_draft \<longrightarrow> i_number r = '''') \<and> (\<forall>s. numbering_ok db s)"

text \<open>What an issued document is frozen in: everything but its status and its paid total.\<close>

definition frozen :: "invoice \<Rightarrow> invoice" where
  "frozen r = r\<lparr>i_status := '''', i_paid := 0\<rparr>"

definition documents_kept :: "acct_db \<Rightarrow> acct_db \<Rightarrow> bool" where
  "documents_kept db db' \<longleftrightarrow>
     (\<forall>r \<in> set (rows (invoices db)). i_status r \<noteq> st_draft \<longrightarrow>
        (\<exists>r' \<in> set (rows (invoices db')). frozen r' = frozen r \<and> i_status r' \<noteq> st_draft) \<and>
        invoice_lines_of db' (i_id r) = invoice_lines_of db (i_id r))"

locale documents_writer = books_writer +
  assumes keeps_docs: "docs_ok db \<Longrightarrow> docs_ok (snd (run db))"
    and keeps_issued: "docs_ok db \<Longrightarrow> documents_kept db (snd (run db))"
begin

lemma issued_stays:
  assumes "docs_ok db" "r \<in> set (rows (invoices db))" "i_status r \<noteq> st_draft"
  shows "\<exists>r' \<in> set (rows (invoices (snd (run db)))). frozen r' = frozen r"
  using keeps_issued [OF assms(1)] assms(2,3) by (auto simp: documents_kept_def)

end

lemma frozen_id: "frozen r' = frozen r \<Longrightarrow> i_id r' = i_id r"
proof -
  have "i_id (frozen r) = i_id r" for r by (simp add: frozen_def)
  then show "frozen r' = frozen r \<Longrightarrow> i_id r' = i_id r" by metis
qed

lemma documents_kept_trans: "documents_kept a b \<Longrightarrow> documents_kept b c \<Longrightarrow> documents_kept a c"
  unfolding documents_kept_def by (metis frozen_id)

lemma documents_kept_refl [simp]:
  "invoices db' = invoices db \<Longrightarrow> invoice_lines db' = invoice_lines db \<Longrightarrow> documents_kept db db'"
  by (auto simp: documents_kept_def invoice_lines_of_def)

lemma docs_ok_cong:
  "invoices db' = invoices db \<Longrightarrow> invoice_lines db' = invoice_lines db \<Longrightarrow> sequences db' = sequences db \<Longrightarrow>
     docs_ok db' = docs_ok db"
  by (simp add: docs_ok_def numbering_ok_def issued_numbers_def)

text \<open>Operations that leave the document tables alone.\<close>

definition same_documents :: "acct_db \<Rightarrow> acct_db \<Rightarrow> bool" where
  "same_documents db db' \<longleftrightarrow>
     invoices db' = invoices db \<and> invoice_lines db' = invoice_lines db \<and> sequences db' = sequences db"

lemma same_documents_refl [simp]: "same_documents db db"
  by (simp add: same_documents_def)

lemma same_documents_contract:
  assumes "same_documents db db'"
  shows "docs_ok db \<Longrightarrow> docs_ok db'" "documents_kept db db'"
  using assms docs_ok_cong [of db' db] by (simp_all add: same_documents_def)

lemma post_same_documents: "same_documents db (snd (post ck e db))"
proof (cases "post ck e db")
  case (Pair r db')
  from Pair show ?thesis
  proof (cases rule: post_cases)
    case (posted k)
    then show ?thesis using Pair by (auto simp: insert_entry_tx_iff same_documents_def)
  qed (simp add: Pair)
qed

lemma reverse_same_documents: "same_documents db (snd (reverse_entry ck i date memo db))"
  by (simp add: reverse_entry_def post_same_documents split: sum.split)

lemma ledger_same_documents:
  "same_documents db (snd (create_account ck a db))" "same_documents db (snd (update_account i a db))"
  "same_documents db (snd (archive_account i arch db))" "same_documents db (snd (lock_period ck p db))"
  "same_documents db (snd (save_vat_rate v db))" "same_documents db (snd (save_settings ck s db))"
  by (simp_all add: ledger_write_defs same_documents_def Let_def split: option.split sum.split)

interpretation create_account_d: documents_writer "create_account ck a" for ck a
  by unfold_locales (use same_documents_contract ledger_same_documents in blast)+

interpretation update_account_d: documents_writer "update_account i a" for i a
  by unfold_locales (use same_documents_contract ledger_same_documents in blast)+

interpretation archive_account_d: documents_writer "archive_account i arch" for i arch
  by unfold_locales (use same_documents_contract ledger_same_documents in blast)+

interpretation lock_period_d: documents_writer "lock_period ck p" for ck p
  by unfold_locales (use same_documents_contract ledger_same_documents in blast)+

interpretation save_vat_rate_d: documents_writer "save_vat_rate v" for v
  by unfold_locales (use same_documents_contract ledger_same_documents in blast)+

interpretation save_settings_d: documents_writer "save_settings ck s" for ck s
  by unfold_locales (use same_documents_contract [OF ledger_same_documents(6)] in simp_all)

interpretation post_d: documents_writer "post ck e" for ck e
  by unfold_locales (use same_documents_contract post_same_documents in blast)+

interpretation reverse_d: documents_writer "reverse_entry ck i date memo" for ck i date memo
  by unfold_locales (use same_documents_contract reverse_same_documents in blast)+

section \<open>Drafts\<close>

lemma insert_invoice_lines_effect:
  "insert_invoice_lines iid n ls db = Inr db' \<Longrightarrow>
     \<exists>news. db' = db\<lparr>invoice_lines := \<lparr>rows = rows (invoice_lines db) @ news, next_id = next_id (invoice_lines db) + int (length ls)\<rparr>\<rparr> \<and>
       distinct (List.map il_id news) \<and>
       (\<forall>l \<in> set news. il_invoice l = iid \<and> next_id (invoice_lines db) \<le> il_id l \<and> il_id l < next_id (invoice_lines db) + int (length ls))"
proof (induction ls arbitrary: n db)
  case (Cons l ls)
  let ?db1 = "db\<lparr>invoice_lines := insert_row (\<lambda>k r. r\<lparr>il_id := k\<rparr>) (l\<lparr>il_invoice := iid, il_ordinal := int n\<rparr>) (invoice_lines db)\<rparr>"
  from Cons.prems have "insert_invoice_lines iid (n + 1) ls ?db1 = Inr db'" by (auto split: if_splits)
  from Cons.IH [OF this] obtain news where w:
    "db' = ?db1\<lparr>invoice_lines := \<lparr>rows = rows (invoice_lines ?db1) @ news, next_id = next_id (invoice_lines ?db1) + int (length ls)\<rparr>\<rparr>"
    "distinct (List.map il_id news)"
    "\<forall>l \<in> set news. il_invoice l = iid \<and> next_id (invoice_lines ?db1) \<le> il_id l \<and> il_id l < next_id (invoice_lines ?db1) + int (length ls)"
    by blast
  let ?l = "l\<lparr>il_id := next_id (invoice_lines db), il_invoice := iid, il_ordinal := int n\<rparr>"
  show ?case
  proof (rule exI [of _ "?l # news"], intro conjI)
    show "db' = db\<lparr>invoice_lines := \<lparr>rows = rows (invoice_lines db) @ ?l # news, next_id = next_id (invoice_lines db) + int (length (l # ls))\<rparr>\<rparr>"
      using w(1) by (simp add: insert_row_def)
    show "distinct (List.map il_id (?l # news))" using w(2,3) by auto
  qed (use w(3) in auto)
qed (rule exI [of _ "[]"], simp)

lemma invoice_lines_keyed:
  assumes "insert_invoice_lines iid n ls db = Inr db'" "keyed il_id (invoice_lines db)"
  shows "keyed il_id (invoice_lines db')"
proof -
  obtain news where w: "invoice_lines db' = \<lparr>rows = rows (invoice_lines db) @ news, next_id = next_id (invoice_lines db) + int (length ls)\<rparr>"
     "distinct (List.map il_id news)"
     "\<forall>l \<in> set news. next_id (invoice_lines db) \<le> il_id l \<and> il_id l < next_id (invoice_lines db) + int (length ls)"
    using insert_invoice_lines_effect [OF assms(1)] by fastforce
  show ?thesis unfolding w(1) by (rule keyed_append) (use assms(2) w in auto)
qed

lemma invoice_lines_other:
  assumes "insert_invoice_lines iid n ls db = Inr db'" "j \<noteq> iid"
  shows "filter (\<lambda>l. il_invoice l = j) (rows (invoice_lines db')) = filter (\<lambda>l. il_invoice l = j) (rows (invoice_lines db))"
  using insert_invoice_lines_effect [OF assms(1)] assms(2) by (auto simp: filter_empty_conv)

lemma invoice_lines_owner:
  assumes "insert_invoice_lines iid n ls db = Inr db'" "l \<in> set (rows (invoice_lines db'))"
  shows "l \<in> set (rows (invoice_lines db)) \<or> il_invoice l = iid"
  using insert_invoice_lines_effect [OF assms(1)] assms(2) by auto

lemma invoice_lines_rest:
  assumes "insert_invoice_lines iid n ls db = Inr db'"
  shows "db' = db\<lparr>invoice_lines := invoice_lines db'\<rparr>"
  using insert_invoice_lines_effect [OF assms] by auto

text \<open>A change of the invoice table that touches drafts only, and the lines of one of them.\<close>

lemma drafts_changed:
  assumes ok: "docs_ok db" and inv: "keyed i_id t" "next_id (invoices db) \<le> next_id t"
    and iss: "filter (\<lambda>r. i_status r \<noteq> st_draft) (rows t) = filter (\<lambda>r. i_status r \<noteq> st_draft) (rows (invoices db))"
    and num: "\<forall>r \<in> set (rows t). i_status r = st_draft \<longrightarrow> i_number r = ''''"
    and ls: "keyed il_id u" "\<forall>l \<in> set (rows u). il_invoice l < next_id t"
    and keep: "\<forall>r \<in> set (rows (invoices db)). i_status r \<noteq> st_draft \<longrightarrow>
        filter (\<lambda>l. il_invoice l = i_id r) (rows u) = filter (\<lambda>l. il_invoice l = i_id r) (rows (invoice_lines db))"
  shows "docs_ok (db\<lparr>invoices := t, invoice_lines := u\<rparr>) \<and> documents_kept db (db\<lparr>invoices := t, invoice_lines := u\<rparr>)"
proof -
  have n: "issued_numbers (db\<lparr>invoices := t, invoice_lines := u\<rparr>) s = issued_numbers db s" for s
    by (simp add: issued_numbers_alt iss del: filter_filter)
  have k: "r \<in> set (rows t)" if "r \<in> set (rows (invoices db))" "i_status r \<noteq> st_draft" for r
    using that arg_cong [OF iss, of set] by auto
  then have "documents_kept db (db\<lparr>invoices := t, invoice_lines := u\<rparr>)"
    using keep by (auto simp: documents_kept_def invoice_lines_of_def)
  moreover have "docs_ok (db\<lparr>invoices := t, invoice_lines := u\<rparr>)"
    using ok inv num ls n by (simp add: docs_ok_def numbering_ok_def)
  ultimately show ?thesis by simp
qed

lemma lines_below:
  assumes "docs_ok db" "insert_invoice_lines iid n ls (db\<lparr>invoices := t\<rparr>) = Inr db'" "next_id (invoices db) \<le> next_id t" "iid < next_id t"
  shows "\<forall>l \<in> set (rows (invoice_lines db')). il_invoice l < next_id t"
  using invoice_lines_owner [OF assms(2)] assms(1,3,4) by (fastforce simp: docs_ok_def)

lemma create_invoice_drafts:
  assumes ok: "docs_ok db" and i: "i_status i = st_draft" "i_number i = ''''"
  shows "docs_ok (snd (create_invoice i db)) \<and> documents_kept db (snd (create_invoice i db))"
proof (cases "create_invoice_tx i db")
  case (Inr p)
  obtain k db2 where p: "p = (k, db2)" by force
  define t where "t = insert_row (\<lambda>k r. r\<lparr>i_id := k\<rparr>) ((invoice_columns i)\<lparr>i_issued_at := ''''\<rparr>) (invoices db)"
  have ins: "insert_invoice_lines k 0 (i_lines i) (db\<lparr>invoices := t\<rparr>) = Inr db2" and k: "k = next_id (invoices db)"
    using Inr p by (auto simp: create_invoice_tx_def t_def Let_def split: if_splits sum.splits)
  have new: "rows t = rows (invoices db) @ [(invoice_columns i)\<lparr>i_issued_at := '''', i_id := k\<rparr>]" "next_id t = k + 1"
    by (simp_all add: t_def k)
  have keyed: "keyed i_id t" using ok by (simp add: docs_ok_def t_def keyed_insert_row)
  have u: "keyed il_id (invoice_lines db2)" using invoice_lines_keyed [OF ins] ok by (simp add: docs_ok_def)
  have old: "i_id r \<noteq> k" if "r \<in> set (rows (invoices db))" for r using ok that k by (auto simp: docs_ok_def keyed_def)
  have draft: "i_status (invoice_columns i) = st_draft" "i_number (invoice_columns i) = ''''"
    using i by (simp_all add: invoice_columns_def)
  have "docs_ok (db\<lparr>invoices := t, invoice_lines := invoice_lines db2\<rparr>) \<and>
      documents_kept db (db\<lparr>invoices := t, invoice_lines := invoice_lines db2\<rparr>)"
  proof (rule drafts_changed [OF ok keyed _ _ _ u])
    show "\<forall>l \<in> set (rows (invoice_lines db2)). il_invoice l < next_id t"
      by (rule lines_below [OF ok ins]) (simp_all add: new k)
    show "\<forall>r \<in> set (rows (invoices db)). i_status r \<noteq> st_draft \<longrightarrow>
        filter (\<lambda>l. il_invoice l = i_id r) (rows (invoice_lines db2)) = filter (\<lambda>l. il_invoice l = i_id r) (rows (invoice_lines db))"
      using invoice_lines_other [OF ins] old by simp
    show "\<forall>r \<in> set (rows t). i_status r = st_draft \<longrightarrow> i_number r = ''''"
      using ok draft by (auto simp: new docs_ok_def)
  qed (use draft in \<open>simp_all add: new k\<close>)
  moreover have "snd (create_invoice i db) = db\<lparr>invoices := t, invoice_lines := invoice_lines db2\<rparr>"
    using Inr p invoice_lines_rest [OF ins] by (simp add: create_invoice_def with_tx_def)
  ultimately show ?thesis by simp
qed (simp add: create_invoice_def with_tx_def ok)

lemma create_draft_docs:
  assumes "docs_ok db"
  shows "docs_ok (snd (create_draft ck i db)) \<and> documents_kept db (snd (create_draft ck i db))"
  using create_invoice_drafts [OF assms] assms by (simp add: create_draft_def Let_def split: sum.split)

lemma rewrite_draft_keeps [simp]:
  "i_id (rewrite_draft i r) = i_id r" "i_status (rewrite_draft i r) = i_status r" "i_number (rewrite_draft i r) = i_number r"
  by (simp_all add: rewrite_draft_def)

lemma filter_update_drafts:
  "(\<And>r. i_status (f r) = i_status r) \<Longrightarrow>
     filter (\<lambda>r. i_status r \<noteq> st_draft) (update_rows (is_draft k) f xs) = filter (\<lambda>r. i_status r \<noteq> st_draft) xs"
  by (induction xs) (auto simp: update_rows_def is_draft_def)

lemma update_draft_docs:
  assumes ok: "docs_ok db"
  shows "docs_ok (snd (update_draft_invoice k i db)) \<and> documents_kept db (snd (update_draft_invoice k i db))"
proof (cases "update_draft_tx k i db")
  case (Inr p)
  obtain db2 where p: "p = ((), db2)" by (cases p) simp
  define t where "t = update_table (is_draft k) (rewrite_draft i) (invoices db)"
  define u where "u = delete_rows (\<lambda>l. il_invoice l = k) (invoice_lines db)"
  have ins: "insert_invoice_lines k 0 (i_lines i) (db\<lparr>invoices := t, invoice_lines := u\<rparr>) = Inr db2"
    and ex: "\<exists>r \<in> set (rows (invoices db)). is_draft k r"
    using Inr p by (auto simp: update_draft_tx_def t_def u_def Let_def split: if_splits sum.splits)
  obtain r0 where r0: "r0 \<in> set (rows (invoices db))" "i_id r0 = k" "i_status r0 = st_draft" using ex by (auto simp: is_draft_def)
  have k: "k < next_id t" using ok r0 by (auto simp: t_def docs_ok_def keyed_def)
  have keyed: "keyed i_id t" using ok by (simp add: docs_ok_def t_def keyed_update_table)
  have u2: "keyed il_id (invoice_lines db2)"
    using invoice_lines_keyed [OF ins] ok by (simp add: docs_ok_def u_def keyed_delete_rows)
  have uniq: "r = r0" if "r \<in> set (rows (invoices db))" "i_id r = k" for r
    using ok that r0 by (auto simp: docs_ok_def keyed_def distinct_map dest: inj_onD)
  have other: "filter (\<lambda>l. il_invoice l = j) (rows (invoice_lines db2)) = filter (\<lambda>l. il_invoice l = j) (rows (invoice_lines db))"
    if "j \<noteq> k" for j
  proof -
    have "filter (\<lambda>l. il_invoice l = j) (rows u) = filter (\<lambda>l. il_invoice l = j) (rows (invoice_lines db))"
      using that by (auto simp: u_def intro: filter_cong)
    then show ?thesis using invoice_lines_other [OF ins that] by simp
  qed
  have "docs_ok (db\<lparr>invoices := t, invoice_lines := invoice_lines db2\<rparr>) \<and>
      documents_kept db (db\<lparr>invoices := t, invoice_lines := invoice_lines db2\<rparr>)"
  proof (rule drafts_changed [OF ok keyed _ _ _ u2])
    show "\<forall>l \<in> set (rows (invoice_lines db2)). il_invoice l < next_id t"
    proof
      fix l assume "l \<in> set (rows (invoice_lines db2))"
      from invoice_lines_owner [OF ins this] show "il_invoice l < next_id t"
        using ok k by (auto simp: u_def t_def docs_ok_def)
    qed
    show "\<forall>r \<in> set (rows (invoices db)). i_status r \<noteq> st_draft \<longrightarrow>
        filter (\<lambda>l. il_invoice l = i_id r) (rows (invoice_lines db2)) = filter (\<lambda>l. il_invoice l = i_id r) (rows (invoice_lines db))"
      using other uniq r0(3) by metis
    show "\<forall>r \<in> set (rows t). i_status r = st_draft \<longrightarrow> i_number r = ''''"
      using ok by (auto simp: t_def set_update_rows docs_ok_def)
  qed (simp_all add: t_def filter_update_drafts)
  moreover have "snd (update_draft_invoice k i db) = db\<lparr>invoices := t, invoice_lines := invoice_lines db2\<rparr>"
    using Inr p invoice_lines_rest [OF ins] by (simp add: update_draft_invoice_def with_tx_def)
  ultimately show ?thesis by simp
qed (simp add: update_draft_invoice_def with_tx_def ok)

lemma delete_draft_docs:
  assumes ok: "docs_ok db"
  shows "docs_ok (snd (delete_draft_invoice k db)) \<and> documents_kept db (snd (delete_draft_invoice k db))"
proof (cases "snd (delete_draft_invoice k db) = db")
  case False
  define t where "t = delete_rows (is_draft k) (invoices db)"
  define u where "u = delete_rows (\<lambda>l. il_invoice l = k) (invoice_lines db)"
  have db': "snd (delete_draft_invoice k db) = db\<lparr>invoices := t, invoice_lines := u\<rparr>"
    and ex: "\<exists>r \<in> set (rows (invoices db)). is_draft k r"
    using False unfolding delete_draft_invoice_def t_def u_def by (simp_all split: if_splits)
  obtain r0 where r0: "r0 \<in> set (rows (invoices db))" "i_id r0 = k" "i_status r0 = st_draft" using ex by (auto simp: is_draft_def)
  have uniq: "r = r0" if "r \<in> set (rows (invoices db))" "i_id r = k" for r
    using ok that r0 by (auto simp: docs_ok_def keyed_def distinct_map dest: inj_onD)
  have other: "filter (\<lambda>l. il_invoice l = j) (rows u) = filter (\<lambda>l. il_invoice l = j) (rows (invoice_lines db))"
    if "j \<noteq> k" for j using that by (auto simp: u_def intro: filter_cong)
  have iss: "filter (\<lambda>r. i_status r \<noteq> st_draft) (rows t) = filter (\<lambda>r. i_status r \<noteq> st_draft) (rows (invoices db))"
    by (auto simp: t_def is_draft_def intro: filter_cong)
  have "docs_ok (db\<lparr>invoices := t, invoice_lines := u\<rparr>) \<and> documents_kept db (db\<lparr>invoices := t, invoice_lines := u\<rparr>)"
  proof (rule drafts_changed [OF ok _ _ iss])
    show "\<forall>r \<in> set (rows (invoices db)). i_status r \<noteq> st_draft \<longrightarrow>
        filter (\<lambda>l. il_invoice l = i_id r) (rows u) = filter (\<lambda>l. il_invoice l = i_id r) (rows (invoice_lines db))"
      using other uniq r0(3) by metis
  qed (use ok in \<open>auto simp: t_def u_def docs_ok_def keyed_delete_rows\<close>)
  then show ?thesis by (simp add: db')
qed (simp add: ok)

text \<open>None of them touches the journal or the accounts.\<close>

lemma drafts_same_journal:
  "accounts (snd (create_invoice i db)) = accounts db \<and> entries (snd (create_invoice i db)) = entries db \<and>
     jlines (snd (create_invoice i db)) = jlines db"
  "accounts (snd (update_draft_invoice k i db)) = accounts db \<and> entries (snd (update_draft_invoice k i db)) = entries db \<and>
     jlines (snd (update_draft_invoice k i db)) = jlines db"
  "accounts (snd (delete_draft_invoice k db)) = accounts db \<and> entries (snd (delete_draft_invoice k db)) = entries db \<and>
     jlines (snd (delete_draft_invoice k db)) = jlines db"
proof -
  have keep: "accounts db' = accounts d \<and> entries db' = entries d \<and> jlines db' = jlines d"
    if "insert_invoice_lines iid n ls d = Inr db'" for iid n ls d db'
  proof -
    have "x = d\<lparr>invoice_lines := z\<rparr> \<Longrightarrow> accounts x = accounts d \<and> entries x = entries d \<and> jlines x = jlines d" for x z by simp
    with invoice_lines_rest [OF that] show ?thesis by blast
  qed
  show "accounts (snd (create_invoice i db)) = accounts db \<and> entries (snd (create_invoice i db)) = entries db \<and>
     jlines (snd (create_invoice i db)) = jlines db"
    by (auto simp: create_invoice_def with_tx_def create_invoice_tx_def Let_def dest!: keep split: sum.split if_splits)
  show "accounts (snd (update_draft_invoice k i db)) = accounts db \<and> entries (snd (update_draft_invoice k i db)) = entries db \<and>
     jlines (snd (update_draft_invoice k i db)) = jlines db"
    by (auto simp: update_draft_invoice_def with_tx_def update_draft_tx_def Let_def dest!: keep split: sum.split if_splits)
qed (simp add: delete_draft_invoice_def)

definition same_journal_tables :: "acct_db \<Rightarrow> acct_db \<Rightarrow> bool" where
  "same_journal_tables db db' \<longleftrightarrow> accounts db' = accounts db \<and> entries db' = entries db \<and> jlines db' = jlines db"

lemma same_journal_contract:
  "same_journal_tables db db' \<Longrightarrow> books_ok db \<Longrightarrow> books_ok db'" "same_journal_tables db db' \<Longrightarrow> journal_extends db db'"
  using books_ok_cong [of db' db] by (simp_all add: same_journal_tables_def)

lemma create_draft_journal: "same_journal_tables db (snd (create_draft ck i db))"
  using drafts_same_journal(1) by (simp add: create_draft_def same_journal_tables_def Let_def split: sum.split)

lemma update_draft_journal: "same_journal_tables db (snd (update_draft ck k i db))"
  using drafts_same_journal(2) by (simp add: update_draft_def same_journal_tables_def split: sum.split)

lemma delete_draft_journal: "same_journal_tables db (snd (delete_draft k db))"
  using drafts_same_journal(3) by (simp add: delete_draft_def same_journal_tables_def split: sum.split)

interpretation create_draft_d: documents_writer "create_draft ck i" for ck i
  by unfold_locales (simp_all add: same_journal_contract [OF create_draft_journal] create_draft_docs)

interpretation update_draft_d: documents_writer "update_draft ck k i" for ck k i
  by unfold_locales (use same_journal_contract [OF update_draft_journal] update_draft_docs in
      \<open>simp_all add: update_draft_def split: sum.split\<close>)

interpretation delete_draft_d: documents_writer "delete_draft k" for k
  by unfold_locales (use same_journal_contract [OF delete_draft_journal] delete_draft_docs in
      \<open>simp_all add: delete_draft_def split: sum.split\<close>)

lemma credit_note_create:
  "snd (credit_note ck k ls why db) = db \<or> (\<exists>i. snd (credit_note ck k ls why db) = snd (create_draft ck i db))"
  by (auto simp: credit_note_def split: sum.split)

interpretation credit_note_d: documents_writer "credit_note ck k ls why" for ck k ls why
proof
  fix db
  from credit_note_create [of ck k ls why db]
  show "books_ok db \<Longrightarrow> books_ok (snd (credit_note ck k ls why db))"
    "books_ok db \<Longrightarrow> journal_extends db (snd (credit_note ck k ls why db))"
    "docs_ok db \<Longrightarrow> docs_ok (snd (credit_note ck k ls why db))"
    "docs_ok db \<Longrightarrow> documents_kept db (snd (credit_note ck k ls why db))"
    using same_journal_contract [OF create_draft_journal] create_draft_docs by auto
qed

section \<open>Issue\<close>

lemma postings_lines_balanced:
  assumes "postings_debit ps = postings_credit ps"
  shows "lines_balanced (List.map (numbered_line number) (filter (\<lambda>p. \<not> posting_empty p) ps))"
proof -
  have s: "sum_list (List.map o_debit (filter (\<lambda>p. \<not> posting_empty p) ps)) = sum_list (List.map o_debit ps)"
    "sum_list (List.map o_credit (filter (\<lambda>p. \<not> posting_empty p) ps)) = sum_list (List.map o_credit ps)"
    by (induction ps) (auto simp: posting_empty_def)
  have m: "List.map l_debit (List.map (numbered_line number) qs) = List.map o_debit qs"
    "List.map l_credit (List.map (numbered_line number) qs) = List.map o_credit qs" for qs
    by (simp_all add: numbered_line_def posting_line_def)
  show ?thesis
    using assms unfolding lines_balanced_def m postings_debit_def postings_credit_def
    by (simp only: sum64_def [symmetric] sum64_wrap s)
qed

lemma invoice_postings_balanced:
  "invoice_postings db iv = Inr ps \<Longrightarrow> postings_debit ps = postings_credit ps"
  by (auto simp: invoice_postings_def Let_def split: sum.splits if_splits)

lemma issue_tx_effect:
  assumes "issue_invoice_tx ck k ps db = Inr ((), db')"
  obtains row q eid db2 where
    "find_row i_id k (invoices db) = Some row" "i_status row = st_draft"
    "first_row (\<lambda>q. q_name q = series_of (i_kind row)) (sequences db) = Some q"
    "insert_entry_tx (document_entry ck db row (number_of q (q_next q)) ps)
       (db\<lparr>sequences := update_rows (\<lambda>q. q_name q = series_of (i_kind row)) (\<lambda>q. q\<lparr>q_next := q_next q + 1\<rparr>) (sequences db)\<rparr>) = Inr (eid, db2)"
    "db' = flag_time_entries k (db2\<lparr>invoices := update_table (is_draft k) (mark_issued ck (number_of q (q_next q)) eid) (invoices db)\<rparr>)"
proof -
  have name: "client_name (db\<lparr>sequences := z\<rparr>) c = client_name db c" for z c by (simp add: client_name_def)
  have doc: "document_entry ck (db\<lparr>sequences := z\<rparr>) iv n ps = document_entry ck db iv n ps" for z iv n
    by (simp add: document_entry_def name)
  obtain row where row: "find_row i_id k (invoices db) = Some row" "i_status row = st_draft"
    using assms by (auto simp: issue_invoice_tx_def split: option.splits if_splits)
  obtain q where q: "first_row (\<lambda>q. q_name q = series_of (i_kind row)) (sequences db) = Some q"
    using assms row by (auto simp: issue_invoice_tx_def allocate_number_tx_def split: option.splits)
  let ?db1 = "db\<lparr>sequences := update_rows (\<lambda>q. q_name q = series_of (i_kind row)) (\<lambda>q. q\<lparr>q_next := q_next q + 1\<rparr>) (sequences db)\<rparr>"
  obtain eid db2 where ins: "insert_entry_tx (document_entry ck db row (number_of q (q_next q)) ps) ?db1 = Inr (eid, db2)"
    using assms row q by (auto simp: issue_invoice_tx_def allocate_number_tx_def doc split: sum.splits)
  have "invoices db2 = invoices db" using ins by (auto simp: insert_entry_tx_iff)
  then have "db' = flag_time_entries k (db2\<lparr>invoices := update_table (is_draft k) (mark_issued ck (number_of q (q_next q)) eid) (invoices db)\<rparr>)"
    using assms row q ins by (auto simp: issue_invoice_tx_def allocate_number_tx_def doc split: if_splits)
  with row q ins that show thesis by blast
qed

lemma flag_time_entries_tables [simp]:
  "accounts (flag_time_entries k db) = accounts db" "entries (flag_time_entries k db) = entries db"
  "jlines (flag_time_entries k db) = jlines db" "invoices (flag_time_entries k db) = invoices db"
  "invoice_lines (flag_time_entries k db) = invoice_lines db" "sequences (flag_time_entries k db) = sequences db"
  "periods (flag_time_entries k db) = periods db" "payments (flag_time_entries k db) = payments db"
  by (simp_all add: flag_time_entries_def Let_def)

lemma document_entry_simps [simp]:
  "e_date (document_entry ck db iv n ps) = i_issue_date iv"
  "e_lines (document_entry ck db iv n ps) = List.map (numbered_line n) (filter (\<lambda>p. \<not> posting_empty p) ps)"
  by (simp_all add: document_entry_def)

lemma issue_tx_books:
  assumes tx: "issue_invoice_tx ck k ps db = Inr ((), db')" and bal: "postings_debit ps = postings_credit ps"
    and ok: "books_ok db" and unlocked: "\<And>row. find_row i_id k (invoices db) = Some row \<Longrightarrow> lock_covering db (i_issue_date row) = None"
  shows "books_ok db' \<and> journal_extends db db'"
proof -
  obtain row q eid db2 where w: "find_row i_id k (invoices db) = Some row"
    and "i_status row = st_draft" "first_row (\<lambda>q. q_name q = series_of (i_kind row)) (sequences db) = Some q"
    and w2: "insert_entry_tx (document_entry ck db row (number_of q (q_next q)) ps)
       (db\<lparr>sequences := update_rows (\<lambda>q. q_name q = series_of (i_kind row)) (\<lambda>q. q\<lparr>q_next := q_next q + 1\<rparr>) (sequences db)\<rparr>) = Inr (eid, db2)"
    and w3: "db' = flag_time_entries k (db2\<lparr>invoices := update_table (is_draft k) (mark_issued ck (number_of q (q_next q)) eid) (invoices db)\<rparr>)"
    by (rule issue_tx_effect [OF tx])
  let ?db1 = "db\<lparr>sequences := update_rows (\<lambda>q. q_name q = series_of (i_kind row)) (\<lambda>q. q\<lparr>q_next := q_next q + 1\<rparr>) (sequences db)\<rparr>"
  have "books_ok ?db1" using ok books_ok_cong [of ?db1 db] by simp
  then have "books_ok db2"
    using insert_entry_books [OF w2] postings_lines_balanced [OF bal] by simp
  then have "books_ok db'" using books_ok_cong [of db' db2] by (simp add: w3)
  moreover have "journal_extends ?db1 db2"
    by (rule insert_entry_extends [OF w2]) (use unlocked [OF w] in \<open>simp add: lock_covering_def\<close>)
  then have "journal_extends db db'" by (simp add: journal_extends_def w3 lock_covering_def)
  ultimately show ?thesis ..
qed

lemma keyed_split:
  assumes "keyed key t" "find_row key k t = Some r"
  obtains xs ys where "rows t = xs @ r # ys" "\<forall>x \<in> set xs \<union> set ys. key x \<noteq> k" "key r = k"
proof -
  have r: "r \<in> set (rows t)" "key r = k" using find_row_Some [OF assms(2)] by auto
  then obtain xs ys where s: "rows t = xs @ r # ys" by (meson split_list)
  then have "\<forall>x \<in> set xs \<union> set ys. key x \<noteq> k" using assms(1) r(2) by (auto simp: keyed_def image_iff)
  with s r(2) that show thesis by blast
qed

lemma upto_snoc: "1 \<le> n \<Longrightarrow> mset [1..n] = add_mset n (mset [1..n - 1])" for n :: int
  by (subst upto_rec2) simp_all

lemma issue_tx_docs:
  assumes tx: "issue_invoice_tx ck k ps db = Inr ((), db')" and ok: "docs_ok db"
  shows "docs_ok db' \<and> documents_kept db db'"
proof -
  obtain row q eid db2 where w: "find_row i_id k (invoices db) = Some row" "i_status row = st_draft"
    "first_row (\<lambda>q. q_name q = series_of (i_kind row)) (sequences db) = Some q"
    "insert_entry_tx (document_entry ck db row (number_of q (q_next q)) ps)
       (db\<lparr>sequences := update_rows (\<lambda>q. q_name q = series_of (i_kind row)) (\<lambda>q. q\<lparr>q_next := q_next q + 1\<rparr>) (sequences db)\<rparr>) = Inr (eid, db2)"
    "db' = flag_time_entries k (db2\<lparr>invoices := update_table (is_draft k) (mark_issued ck (number_of q (q_next q)) eid) (invoices db)\<rparr>)"
    by (rule issue_tx_effect [OF tx])
  define n where "n = number_of q (q_next q)"
  define name where "name = series_of (i_kind row)"
  define inc where "inc = (\<lambda>q :: sequence. if q_name q = name then q\<lparr>q_next := q_next q + 1\<rparr> else q)"
  have t: "invoices db' = update_table (is_draft k) (mark_issued ck n eid) (invoices db)"
    "invoice_lines db' = invoice_lines db" "sequences db' = List.map inc (sequences db)"
    using w(4) by (auto simp: w(5) insert_entry_tx_iff n_def name_def inc_def update_rows_def)
  have keyed: "keyed i_id (invoices db)" using ok by (simp add: docs_ok_def)
  obtain xs ys where sp: "rows (invoices db) = xs @ row # ys" "\<forall>x \<in> set xs \<union> set ys. i_id x \<noteq> k" "i_id row = k"
    by (rule keyed_split [OF keyed w(1)])
  have "update_rows (is_draft k) f xs = xs" "update_rows (is_draft k) f ys = ys" for f
    using sp(2) by (auto simp: is_draft_def intro: update_rows_none)
  then have t2: "rows (invoices db') = xs @ mark_issued ck n eid row # ys"
    using w(2) sp by (simp add: t update_rows_def is_draft_def)
  have mk: "i_id (mark_issued ck n eid row) = k" "i_status (mark_issued ck n eid row) = st_issued"
    "i_number (mark_issued ck n eid row) = n" "i_kind (mark_issued ck n eid row) = i_kind row"
    using sp(3) by (simp_all add: mark_issued_def)
  have nums: "mset (issued_numbers db' s) = (if s = name then add_mset n (mset (issued_numbers db s)) else mset (issued_numbers db s))" for s
    using w(2) by (simp add: issued_numbers_def t2 sp(1) mk name_def)
  have "numbering_ok db' s" for s
    unfolding numbering_ok_def
  proof (intro allI impI)
    fix q' assume q': "first_row (\<lambda>q. q_name q = s) (sequences db') = Some q'"
    have "first_row (\<lambda>q. q_name q = s) (List.map inc (sequences db)) = map_option inc (first_row (\<lambda>q. q_name q = s) (sequences db))"
      by (rule first_row_map) (simp add: inc_def)
    with q' obtain q0 where q0: "first_row (\<lambda>q. q_name q = s) (sequences db) = Some q0" "q' = inc q0"
      by (auto simp: t)
    have old: "1 \<le> q_next q0" "mset (issued_numbers db s) = image_mset (number_of q0) (mset [1..q_next q0 - 1])"
      using ok q0(1) by (auto simp: docs_ok_def numbering_ok_def)
    have nm: "q_name q0 = s" using first_row_Some [OF q0(1)] by simp
    show "1 \<le> q_next q' \<and> mset (issued_numbers db' s) = image_mset (number_of q') (mset [1..q_next q' - 1])"
    proof (cases "s = name")
      case True
      then have "q0 = q" using q0(1) w(3) by (simp add: name_def)
      moreover have "number_of (q\<lparr>q_next := m\<rparr>) = number_of q" for m by (simp add: number_of_def fun_eq_iff)
      ultimately show ?thesis
        using old True nm upto_snoc [OF old(1)] by (simp add: nums q0(2) inc_def n_def)
    next
      case False
      with old nm show ?thesis by (simp add: nums q0(2) inc_def)
    qed
  qed
  moreover have "keyed i_id (invoices db')"
    using keyed by (simp add: t keyed_update_table mark_issued_def)
  moreover have "next_id (invoices db') = next_id (invoices db)" by (simp add: t)
  moreover have "\<forall>r \<in> set (rows (invoices db')). i_status r = st_draft \<longrightarrow> i_number r = ''''"
    using ok mk by (auto simp: t2 docs_ok_def sp(1))
  moreover have "documents_kept db db'"
    using w(2) by (auto simp: documents_kept_def t2 sp(1) invoice_lines_of_def t(2))
  ultimately show ?thesis using ok t(2) by (simp add: docs_ok_def)
qed

lemma get_invoice_row:
  "get_invoice db k = Inr iv \<Longrightarrow>
     \<exists>row. find_row i_id k (invoices db) = Some row \<and> iv = (scan_invoice db row)\<lparr>i_lines := invoice_lines_of db k\<rparr>"
  by (auto simp: get_invoice_def split: option.splits)

lemma scan_invoice_simps [simp]:
  "i_id (scan_invoice db r) = i_id r" "i_status (scan_invoice db r) = i_status r" "i_issue_date (scan_invoice db r) = i_issue_date r"
  "i_kind (scan_invoice db r) = i_kind r" "i_total (scan_invoice db r) = i_total r" "i_paid (scan_invoice db r) = i_paid r"
  "i_number (scan_invoice db r) = i_number r" "i_entry (scan_invoice db r) = i_entry r" "i_vat (scan_invoice db r) = i_vat r"
  "i_client (scan_invoice db r) = i_client r"
  by (simp_all add: scan_invoice_def)

lemma issue_cases:
  obtains err where "issue ck k db = (Inl err, db)"
  | iv ps where "get_invoice db k = Inr iv" "i_lines iv \<noteq> []" "lock_covering db (i_issue_date iv) = None"
      "invoice_postings db iv = Inr ps" "issue ck k db = issue_invoice ck k ps db"
proof (cases "get_invoice db k")
  case (Inr iv)
  show thesis
  proof (cases "editable (i_status iv) \<and> i_lines iv \<noteq> [] \<and> lock_covering db (i_issue_date iv) = None")
    case True
    then show thesis
      using that Inr by (cases "invoice_postings db iv") (auto simp: issue_def check_period_open_def)
  next
    case False
    then have "\<exists>err. issue ck k db = (Inl err, db)"
      using Inr by (auto simp: issue_def check_period_open_def)
    with that show thesis by blast
  qed
qed (use that in \<open>simp add: issue_def\<close>)

lemma issue_books:
  assumes ok: "books_ok db"
  shows "books_ok (snd (issue ck k db)) \<and> journal_extends db (snd (issue ck k db))"
proof (cases rule: issue_cases [of ck k db])
  case (2 iv ps)
  show ?thesis
  proof (cases "issue_invoice_tx ck k ps db")
    case (Inr p)
    then obtain db' where tx: "issue_invoice_tx ck k ps db = Inr ((), db')" by (cases p) simp
    have "lock_covering db (i_issue_date row) = None" if "find_row i_id k (invoices db) = Some row" for row
      using get_invoice_row [OF 2(1)] 2(3) that by auto
    from issue_tx_books [OF tx invoice_postings_balanced [OF 2(4)] ok this] tx 2(5)
    show ?thesis by (simp add: issue_invoice_def with_tx_def)
  qed (simp add: 2(5) issue_invoice_def with_tx_def ok)
qed (simp add: ok)

lemma issue_docs:
  assumes ok: "docs_ok db"
  shows "docs_ok (snd (issue ck k db)) \<and> documents_kept db (snd (issue ck k db))"
proof (cases rule: issue_cases [of ck k db])
  case (2 iv ps)
  show ?thesis
  proof (cases "issue_invoice_tx ck k ps db")
    case (Inr p)
    then obtain db' where tx: "issue_invoice_tx ck k ps db = Inr ((), db')" by (cases p) simp
    from issue_tx_docs [OF tx ok] tx 2(5) show ?thesis by (simp add: issue_invoice_def with_tx_def)
  qed (simp add: 2(5) issue_invoice_def with_tx_def ok)
qed (simp add: ok)

interpretation issue_d: documents_writer "issue ck k" for ck k
  by unfold_locales (simp_all add: issue_books issue_docs)

section \<open>Status changes\<close>

lemma status_change_docs:
  assumes ok: "docs_ok db"
    and f: "\<And>r. r \<in> set (rows (invoices db)) \<Longrightarrow> p r \<Longrightarrow> frozen (f r) = frozen r \<and> (i_status (f r) = st_draft \<longleftrightarrow> i_status r = st_draft)"
    and db': "db' = db\<lparr>invoices := update_table p f (invoices db)\<rparr>"
  shows "docs_ok db' \<and> documents_kept db db'"
proof -
  let ?g = "\<lambda>r. if p r then f r else r"
  have fr: "i_id (frozen r) = i_id r" "i_number (frozen r) = i_number r" "i_kind (frozen r) = i_kind r" for r
    by (simp_all add: frozen_def)
  have g: "i_id (?g r) = i_id r" "i_number (?g r) = i_number r" "i_kind (?g r) = i_kind r"
    "(i_status (?g r) = st_draft) = (i_status r = st_draft)" "frozen (?g r) = frozen r"
    if "r \<in> set (rows (invoices db))" for r
    using f [OF that] fr [of r] fr [of "f r"] by auto
  have rows': "rows (invoices db') = List.map ?g (rows (invoices db))" by (simp add: db' update_rows_def)
  have gs: "(series_of (i_kind (?g r)) = s \<and> i_status (?g r) \<noteq> st_draft) = (series_of (i_kind r) = s \<and> i_status r \<noteq> st_draft)"
    if "r \<in> set (rows (invoices db))" for r s using g [OF that] by simp
  have "List.map i_number (filter (\<lambda>r. series_of (i_kind r) = s \<and> i_status r \<noteq> st_draft) (List.map ?g xs)) =
      List.map i_number (filter (\<lambda>r. series_of (i_kind r) = s \<and> i_status r \<noteq> st_draft) xs)"
    if "set xs \<subseteq> set (rows (invoices db))" for s xs using that
  proof (induction xs)
    case (Cons x xs)
    then have "x \<in> set (rows (invoices db))" by simp
    with Cons g(2) gs show ?case by simp
  qed simp
  then have num: "issued_numbers db' s = issued_numbers db s" for s
    unfolding issued_numbers_def rows' by simp
  have idm: "List.map i_id (List.map ?g xs) = List.map i_id xs" if "set xs \<subseteq> set (rows (invoices db))" for xs
    using that
  proof (induction xs)
    case (Cons x xs)
    then have "x \<in> set (rows (invoices db))" by simp
    with Cons g(1) show ?case by simp
  qed simp
  have ids: "List.map i_id (rows (invoices db')) = List.map i_id (rows (invoices db))" unfolding rows' by (rule idm) simp
  have nid: "next_id (invoices db') = next_id (invoices db)" "invoice_lines db' = invoice_lines db" "sequences db' = sequences db"
    by (simp_all add: db')
  have "i_id r < next_id (invoices db')" if "r \<in> set (rows (invoices db'))" for r
  proof -
    from that obtain r0 where "r0 \<in> set (rows (invoices db))" "r = ?g r0" by (auto simp: rows')
    then have "i_id r = i_id r0" using g(1) by blast
    with \<open>r0 \<in> _\<close> ok show ?thesis by (auto simp: nid docs_ok_def keyed_def)
  qed
  then have k: "keyed i_id (invoices db')" using ok ids nid by (simp add: keyed_def docs_ok_def)
  have "i_number r = ''''" if "r \<in> set (rows (invoices db'))" "i_status r = st_draft" for r
  proof -
    from that(1) obtain r0 where r0: "r0 \<in> set (rows (invoices db))" "r = ?g r0" by (auto simp: rows')
    then have "i_status r0 = st_draft" "i_number r = i_number r0" using g(2,4) that(2) by blast+
    with r0 ok show ?thesis by (simp add: docs_ok_def)
  qed
  then have "docs_ok db'" using ok k nid num by (simp add: docs_ok_def numbering_ok_def)
  moreover have "\<exists>r' \<in> set (rows (invoices db')). frozen r' = frozen r \<and> i_status r' \<noteq> st_draft"
    if "r \<in> set (rows (invoices db))" "i_status r \<noteq> st_draft" for r
    using g(4,5) [OF that(1)] that by (intro bexI [of _ "?g r"]) (simp_all add: rows')
  ultimately show ?thesis by (auto simp: documents_kept_def invoice_lines_of_def nid)
qed

lemma set_status_docs:
  assumes "docs_ok db" "s \<noteq> st_draft" "\<And>r. r \<in> set (rows (invoices db)) \<Longrightarrow> i_id r = k \<Longrightarrow> i_status r \<noteq> st_draft"
  shows "docs_ok (snd (set_invoice_status k s db)) \<and> documents_kept db (snd (set_invoice_status k s db))"
  unfolding set_invoice_status_def Let_def snd_conv
  by (rule status_change_docs [OF assms(1) _ refl]) (use assms in \<open>auto simp: frozen_def\<close>)

lemma recalc_docs:
  assumes ok: "docs_ok db"
  shows "docs_ok (snd (recalc_invoice_payments k db)) \<and> documents_kept db (snd (recalc_invoice_payments k db))"
proof (cases "snd (recalc_invoice_payments k db) = db")
  case False
  then obtain iv paid where w: "get_invoice db k = Inr iv"
      "snd (recalc_invoice_payments k db) =
        db\<lparr>invoices := update_table (\<lambda>r. i_id r = k) (\<lambda>r. r\<lparr>i_paid := paid, i_status := payment_status (iv\<lparr>i_paid := paid\<rparr>)\<rparr>) (invoices db)\<rparr>"
    by (auto simp: recalc_invoice_payments_def Let_def split: sum.splits)
  obtain row where row: "find_row i_id k (invoices db) = Some row" "iv = (scan_invoice db row)\<lparr>i_lines := invoice_lines_of db k\<rparr>"
    using get_invoice_row [OF w(1)] by blast
  have uniq: "r = row" if "r \<in> set (rows (invoices db))" "i_id r = k" for r
    using keyed_find_row [of i_id "invoices db" r] ok that row(1) by (simp add: docs_ok_def)
  have "(payment_status (iv\<lparr>i_paid := paid\<rparr>) = st_draft) = (i_status row = st_draft)"
    by (simp add: payment_status_def row(2))
  then show ?thesis
    unfolding w(2) by (intro status_change_docs [OF ok _ refl]) (auto simp: frozen_def dest: uniq)
qed (simp add: ok)

lemma same_journal_status:
  "same_journal_tables db (snd (set_invoice_status k s db))" "same_journal_tables db (snd (recalc_invoice_payments k db))"
  by (simp_all add: set_invoice_status_def recalc_invoice_payments_def same_journal_tables_def Let_def split: sum.split)

lemma void_cases:
  obtains err where "void ck k why db = (Inl err, db)"
  | r db1 where "snd (void ck k why db) = db1" "\<exists>i date memo. db1 = snd (reverse_entry ck i date memo db)"
  | db1 iv where "get_invoice db k = Inr iv" "i_status iv \<noteq> st_draft" "snd (void ck k why db) = snd (set_invoice_status k st_void db1)"
      "db1 = db \<or> (\<exists>i date memo. db1 = snd (reverse_entry ck i date memo db))"
proof (cases "get_invoice db k")
  case (Inr iv)
  show thesis
  proof (cases "i_status iv \<noteq> st_draft \<and> i_status iv \<noteq> st_void \<and> i_paid iv = 0 \<and> check_period_open db (today ck) = None")
    case True
    show thesis
    proof (cases "i_entry iv = 0")
      case t: True
      with True Inr that(3) show thesis by (simp add: void_def)
    next
      case f: False
      obtain r db1 where rv: "reverse_entry ck (i_entry iv) (today ck) (void_memo iv why) db = (r, db1)" by force
      then have d: "db1 = snd (reverse_entry ck (i_entry iv) (today ck) (void_memo iv why) db)" by simp
      from True f Inr rv have v: "snd (void ck k why db) = (case r of Inl _ \<Rightarrow> db1 | Inr _ \<Rightarrow> snd (set_invoice_status k st_void db1))"
        by (simp add: void_def split: sum.split)
      show thesis
      proof (cases r)
        case (Inl e)
        with v d that(2) show thesis by auto
      next
        case r: (Inr e)
        have "snd (void ck k why db) = snd (set_invoice_status k st_void db1)" using v r by simp
        with that(3) [OF Inr] True d show thesis by blast
      qed
    qed
  next
    case False
    then have "\<exists>err. void ck k why db = (Inl err, db)"
      using Inr by (auto simp: void_def split: option.splits)
    with that(1) show thesis by blast
  qed
qed (use that in \<open>simp add: void_def\<close>)

interpretation void_d: documents_writer "void ck k why" for ck k why
proof
  fix db
  note rv = reverse_entry_keeps [of db] reverse_entry_extends [of db] same_documents_contract [OF reverse_same_documents, of db]
  have sets: "books_ok d \<Longrightarrow> books_ok (snd (set_invoice_status j s d))" "journal_extends e d \<Longrightarrow> journal_extends e (snd (set_invoice_status j s d))" for d e j s
    using same_journal_contract(1) [OF same_journal_status(1)] by (simp_all add: journal_extends_def set_invoice_status_def Let_def)
  show "books_ok db \<Longrightarrow> books_ok (snd (void ck k why db))"
    by (cases rule: void_cases [of ck k why db]) (auto simp: rv intro: sets)
  show "books_ok db \<Longrightarrow> journal_extends db (snd (void ck k why db))"
    by (cases rule: void_cases [of ck k why db]) (auto simp: rv intro: sets)
  have "docs_ok db \<Longrightarrow> docs_ok (snd (void ck k why db)) \<and> documents_kept db (snd (void ck k why db))"
  proof (cases rule: void_cases [of ck k why db])
    case (3 db1 iv)
    assume ok: "docs_ok db"
    have d1: "docs_ok db1" "invoices db1 = invoices db" "invoice_lines db1 = invoice_lines db"
      using 3(4) ok rv(3) reverse_same_documents by (auto simp: same_documents_def)
    obtain row where row: "find_row i_id k (invoices db) = Some row" "i_status row \<noteq> st_draft"
      using get_invoice_row [OF 3(1)] 3(2) by auto
    have "i_status r \<noteq> st_draft" if "r \<in> set (rows (invoices db1))" "i_id r = k" for r
      using keyed_find_row [of i_id "invoices db" r] ok that row by (simp add: docs_ok_def d1(2))
    then have "docs_ok (snd (set_invoice_status k st_void db1)) \<and> documents_kept db1 (snd (set_invoice_status k st_void db1))"
      using set_status_docs [OF d1(1)] by simp
    moreover have "documents_kept db db1" using d1 by simp
    ultimately show ?thesis using documents_kept_trans 3(3) by metis
  qed (auto simp: rv)
  then show "docs_ok db \<Longrightarrow> docs_ok (snd (void ck k why db))"
    "docs_ok db \<Longrightarrow> documents_kept db (snd (void ck k why db))" by blast+
qed

section \<open>What issuing posts\<close>

definition net_posting :: "int \<Rightarrow> posting list \<Rightarrow> int" where
  "net_posting acct ps = sum_list (List.map (\<lambda>p. if o_account p = acct then o_debit p - o_credit p else 0) ps)"

lemma net_numbered_lines:
  "net_of acct (List.map (numbered_line n) (filter (\<lambda>p. \<not> posting_empty p) ps)) = net_posting acct ps"
  by (induction ps) (auto simp: net_of_def net_posting_def numbered_line_def posting_line_def posting_empty_def)

lemma net_posting_Cons:
  "net_posting acct (p # ps) = (if o_account p = acct then o_debit p - o_credit p else 0) + net_posting acct ps"
  by (simp add: net_posting_def)

lemma net_posting_append: "net_posting acct (ps @ qs) = net_posting acct ps + net_posting acct qs"
  by (simp add: net_posting_def)

lemma net_posting_other: "(\<And>p. p \<in> set ps \<Longrightarrow> o_account p \<noteq> acct) \<Longrightarrow> net_posting acct ps = 0"
  by (induction ps) (simp_all add: net_posting_def)

lemma posting_account [simp]: "o_account (place_posting acct m d b) = acct"
  by (simp add: place_posting_def debit_def credit_def Let_def)

lemma posting_net:
  assumes "in64 m" "m \<noteq> - (2 ^ 63)"
  shows "o_debit (place_posting acct m d True) - o_credit (place_posting acct m d True) = m"
proof -
  have "neg64 m = - m" using assms by (auto simp: neg64_def in64_def wrap64_id)
  then show ?thesis by (simp add: place_posting_def debit_def credit_def)
qed

lemma add_income_keys: "fst ` set (add_income xs a m) = insert a (fst ` set xs)"
  by (induction xs a m rule: add_income.induct) auto

lemma add_income_zero: "\<forall>y \<in> set xs. snd y = 0 \<Longrightarrow> \<forall>x \<in> set (add_income xs a 0). snd x = 0"
proof (induction xs)
  case (Cons p xs)
  obtain b s where p: "p = (b, s)" by force
  show ?case
  proof (cases "b = a")
    case True
    with Cons.prems p show ?thesis by (simp add: add64_def)
  next
    case False
    with Cons p show ?thesis by simp
  qed
qed (simp add: add64_def)

lemma income_by_account_keys: "fst ` set (income_by_account ls) = il_income ` set ls"
proof -
  have "fst ` set (foldl (\<lambda>acc l. add_income acc (il_income l) (il_net l)) xs ls) = fst ` set xs \<union> il_income ` set ls" for xs
    by (induction ls arbitrary: xs) (simp_all add: add_income_keys)
  then show ?thesis by (simp add: income_by_account_def)
qed

lemma system_key_distinct:
  assumes "keyed a_id (accounts db)" "account_by_system_key db k1 = Inr a" "account_by_system_key db k2 = Inr b" "k1 \<noteq> k2"
  shows "a_id a \<noteq> a_id b"
proof -
  have "a \<in> set (rows (accounts db)) \<and> a_system_key a = k1" "b \<in> set (rows (accounts db)) \<and> a_system_key b = k2"
    using assms(2,3) by (auto simp: account_by_system_key_def split: option.splits dest: first_row_Some)
  with assms(1,4) show ?thesis by (auto simp: keyed_def distinct_map dest: inj_onD)
qed

lemma invoice_postings_shape:
  assumes "invoice_postings db iv = Inr ps"
  obtains ar vps lab d where "account_by_system_key db sys_ar = Inr ar"
    "vat_postings db iv (if i_kind iv = kind_credit_note then -1 else 1) lab = Inr vps"
    "ps = place_posting (a_id ar) (mul64 (if i_kind iv = kind_credit_note then -1 else 1) (i_total iv)) d True #
        List.map (\<lambda>(acct, m). place_posting acct (mul64 (if i_kind iv = kind_credit_note then -1 else 1) m) lab False)
          (income_by_account (i_lines iv)) @ vps"
proof -
  define sign :: int where "sign = (if i_kind iv = kind_credit_note then -1 else 1)"
  define lab where "lab = (if i_number iv = '''' then ''invoice'' else i_number iv)"
  obtain ar where ar: "account_by_system_key db sys_ar = Inr ar"
    using assms by (cases "account_by_system_key db sys_ar") (simp_all add: invoice_postings_def)
  obtain vps where v: "vat_postings db iv sign lab = Inr vps"
    using assms ar by (cases "vat_postings db iv sign lab") (simp_all add: invoice_postings_def Let_def sign_def lab_def cong: if_cong)
  have "ps = place_posting (a_id ar) (mul64 sign (i_total iv)) (lab @ em_dash @ i_client_name iv) True #
        List.map (\<lambda>(acct, m). place_posting acct (mul64 sign m) lab False) (income_by_account (i_lines iv)) @ vps"
    using assms ar v unfolding sign_def [symmetric] lab_def [symmetric]
    by (simp add: invoice_postings_def Let_def flip: sign_def lab_def cong: if_cong split: if_splits)
  with ar v show thesis using that unfolding sign_def by blast
qed

lemma invoice_postings_net:
  assumes ps: "invoice_postings db iv = Inr ps" and keyed: "keyed a_id (accounts db)"
    and ar: "account_by_system_key db sys_ar = Inr ar" and inc: "\<And>l. l \<in> set (i_lines iv) \<Longrightarrow> il_income l \<noteq> a_id ar"
    and range: "in64 (i_total iv)" "i_total iv \<noteq> - (2 ^ 63)"
  shows "net_posting (a_id ar) ps = (if i_kind iv = kind_credit_note then - i_total iv else i_total iv)"
proof -
  define sign :: int where "sign = (if i_kind iv = kind_credit_note then -1 else 1)"
  obtain ar' vps lab d where w0: "account_by_system_key db sys_ar = Inr ar'" "vat_postings db iv sign lab = Inr vps"
      "ps = place_posting (a_id ar') (mul64 sign (i_total iv)) d True #
        List.map (\<lambda>(acct, m). place_posting acct (mul64 sign m) lab False) (income_by_account (i_lines iv)) @ vps"
    unfolding sign_def by (rule invoice_postings_shape [OF ps])
  then have w: "vat_postings db iv sign lab = Inr vps"
      "ps = place_posting (a_id ar) (mul64 sign (i_total iv)) d True #
        List.map (\<lambda>(acct, m). place_posting acct (mul64 sign m) lab False) (income_by_account (i_lines iv)) @ vps"
    using ar by simp_all
  have m: "mul64 sign (i_total iv) = sign * i_total iv" "in64 (sign * i_total iv)" "sign * i_total iv \<noteq> - (2 ^ 63)"
    using range by (auto simp: mul64_def sign_def in64_def wrap64_id)
  have n1: "o_account p \<noteq> a_id ar" if "p \<in> set (List.map (\<lambda>(acct, m). place_posting acct (mul64 sign m) lab False) (income_by_account (i_lines iv)))" for p
  proof -
    from that obtain x where "x \<in> set (income_by_account (i_lines iv))" "o_account p = fst x" by (auto split: prod.splits)
    then have "o_account p \<in> il_income ` set (i_lines iv)" using income_by_account_keys by blast
    then show ?thesis using inc by (metis imageE)
  qed
  have n2: "o_account p \<noteq> a_id ar" if "p \<in> set vps" for p
  proof -
    have ne: "sys_ar \<noteq> sys_vat_output" by (simp add: sys_ar_def sys_vat_output_def)
    from that w(1) obtain va where "account_by_system_key db sys_vat_output = Inr va" "o_account p = a_id va"
      by (auto simp: vat_postings_def split: if_splits sum.splits)
    with system_key_distinct [OF keyed ar _ ne] show ?thesis by metis
  qed
  have z1: "net_posting (a_id ar) (List.map (\<lambda>(acct, m). place_posting acct (mul64 sign m) lab False) (income_by_account (i_lines iv))) = 0"
    by (rule net_posting_other) (rule n1)
  have z2: "net_posting (a_id ar) vps = 0" by (rule net_posting_other) (rule n2)
  have "net_posting (a_id ar) ps = sign * i_total iv"
    unfolding w(2) m(1) net_posting_Cons net_posting_append z1 z2
    by (simp add: posting_net [OF m(2,3)])
  then show ?thesis by (simp add: sign_def)
qed

lemma issue_success:
  assumes ok: "books_ok db" "docs_ok db" and iv: "get_invoice db k = Inr iv" and run: "issue ck k db = (Inr iv', db')"
  obtains q ps where "first_row (\<lambda>q. q_name q = series_of (i_kind iv)) (sequences db) = Some q" "invoice_postings db iv = Inr ps"
    "i_status iv = st_draft" "i_status iv' = st_issued" "i_number iv' = number_of q (q_next q)" "i_entry iv' = next_id (entries db)"
    "entry_rows db' (i_entry iv') = line_rows (next_id (jlines db)) (i_entry iv') 0
       (List.map (numbered_line (i_number iv')) (filter (\<lambda>p. \<not> posting_empty p) ps))" "books_ok db'" "get_invoice db' k = Inr iv'"
    "accounts db' = accounts db" "periods db' = periods db" "i_total iv' = i_total iv"
proof (cases rule: issue_cases [of ck k db])
  case (2 jv ps)
  have jv: "jv = iv" using 2(1) iv by simp
  obtain p where "issue_invoice_tx ck k ps db = Inr p"
    using run 2(5) by (cases "issue_invoice_tx ck k ps db") (auto simp: issue_invoice_def with_tx_def)
  then have tx: "issue_invoice_tx ck k ps db = Inr ((), db')" and g: "get_invoice db' k = Inr iv'"
    using run 2(5) by (cases p; auto simp: issue_invoice_def with_tx_def)+
  obtain row q eid db2 where w: "find_row i_id k (invoices db) = Some row" "i_status row = st_draft"
    "first_row (\<lambda>q. q_name q = series_of (i_kind row)) (sequences db) = Some q"
    "insert_entry_tx (document_entry ck db row (number_of q (q_next q)) ps)
       (db\<lparr>sequences := update_rows (\<lambda>q. q_name q = series_of (i_kind row)) (\<lambda>q. q\<lparr>q_next := q_next q + 1\<rparr>) (sequences db)\<rparr>) = Inr (eid, db2)"
    "db' = flag_time_entries k (db2\<lparr>invoices := update_table (is_draft k) (mark_issued ck (number_of q (q_next q)) eid) (invoices db)\<rparr>)"
    by (rule issue_tx_effect [OF tx])
  have row: "iv = (scan_invoice db row)\<lparr>i_lines := invoice_lines_of db k\<rparr>" using get_invoice_row [OF iv] w(1) by auto
  let ?db1 = "db\<lparr>sequences := update_rows (\<lambda>q. q_name q = series_of (i_kind row)) (\<lambda>q. q\<lparr>q_next := q_next q + 1\<rparr>) (sequences db)\<rparr>"
  have ok1: "books_ok ?db1" using ok(1) books_ok_cong [of ?db1 db] by simp
  have rid: "i_id row = k" using find_row_Some [OF w(1)] by simp
  have inv': "invoices db' = update_table (is_draft k) (mark_issued ck (number_of q (q_next q)) eid) (invoices db)"
    by (simp add: w(5))
  have "find_row i_id k (invoices db') = Some (mark_issued ck (number_of q (q_next q)) eid row)"
    unfolding inv' using w(1,2) rid by (subst find_row_update_table) (simp_all add: mark_issued_def is_draft_def)
  then have iv': "iv' = (scan_invoice db' (mark_issued ck (number_of q (q_next q)) eid row))\<lparr>i_lines := invoice_lines_of db' k\<rparr>"
    using g by (simp add: get_invoice_def)
  then have f: "i_status iv' = st_issued" "i_number iv' = number_of q (q_next q)" "i_entry iv' = eid" "i_total iv' = i_total iv"
    by (simp_all add: mark_issued_def row)
  have eid: "eid = next_id (entries db)" using w(4) by (auto simp: insert_entry_tx_iff)
  have "entry_rows db' i = entry_rows db2 i" for i by (simp add: entry_rows_def w(5))
  then have er: "entry_rows db' eid = line_rows (next_id (jlines db)) eid 0
       (List.map (numbered_line (number_of q (q_next q))) (filter (\<lambda>p. \<not> posting_empty p) ps))"
    using insert_entry_rows [OF w(4) ok1, of eid] by simp
  have "lock_covering db (i_issue_date r) = None" if "find_row i_id k (invoices db) = Some r" for r
    using get_invoice_row [OF 2(1)] 2(3) that by auto
  from issue_tx_books [OF tx invoice_postings_balanced [OF 2(4)] ok(1) this] have "books_ok db'" by simp
  moreover have "accounts db' = accounts db" "periods db' = periods db" using w(4) by (auto simp: w(5) insert_entry_tx_iff)
  ultimately show thesis
    using that [of q ps] w(2,3) 2(4) f er eid g by (simp add: row jv)
qed (use run in simp)

section \<open>Properties\<close>

text \<open>C15: Issuing a draft takes the next number of its series and posts one balanced entry that moves accounts
  receivable by exactly the document's total, up for an invoice and down for a credit note.\<close>

theorem issue_posts_receivable:
  assumes ok: "books_ok db" "docs_ok db" and iv: "get_invoice db k = Inr iv" and run: "issue ck k db = (Inr iv', db')"
    and ar: "account_by_system_key db sys_ar = Inr ar" and inc: "\<And>l. l \<in> set (i_lines iv) \<Longrightarrow> il_income l \<noteq> a_id ar"
    and range: "in64 (i_total iv)" "i_total iv \<noteq> - (2 ^ 63)"
  shows "\<exists>q. first_row (\<lambda>q. q_name q = series_of (i_kind iv)) (sequences db) = Some q \<and>
    i_status iv' = st_issued \<and> i_number iv' = number_of q (q_next q) \<and> i_entry iv' = next_id (entries db) \<and>
    lines_balanced (entry_rows db' (i_entry iv')) \<and>
    net_of (a_id ar) (entry_rows db' (i_entry iv')) = (if i_kind iv = kind_credit_note then - i_total iv else i_total iv)"
proof (rule issue_success [OF ok iv run])
  fix q ps
  assume w: "first_row (\<lambda>q. q_name q = series_of (i_kind iv)) (sequences db) = Some q" "invoice_postings db iv = Inr ps"
    "i_status iv' = st_issued" "i_number iv' = number_of q (q_next q)" "i_entry iv' = next_id (entries db)"
    "entry_rows db' (i_entry iv') = line_rows (next_id (jlines db)) (i_entry iv') 0
       (List.map (numbered_line (i_number iv')) (filter (\<lambda>p. \<not> posting_empty p) ps))"
  have "keyed a_id (accounts db)" using ok by (simp add: books_ok_def)
  from invoice_postings_net [OF w(2) this ar inc range]
  have "net_of (a_id ar) (entry_rows db' (i_entry iv')) = (if i_kind iv = kind_credit_note then - i_total iv else i_total iv)"
    by (simp add: w(6) net_of_line_rows net_numbered_lines)
  moreover have "lines_balanced (entry_rows db' (i_entry iv'))"
    using postings_lines_balanced [OF invoice_postings_balanced [OF w(2)], of "i_number iv'"] by (simp add: w(6) lines_balanced_def)
  ultimately show ?thesis using w by blast
qed



text \<open>A draft with one line of the given net amount, dated like the other examples.\<close>

definition demo_drafted :: "money \<Rightarrow> acct_db" where
  "demo_drafted m =
     demo_books\<lparr>invoices := \<lparr>rows =
         [\<lparr>i_id = 1, i_kind = kind_invoice, i_number = '''', i_client = 1, i_engagement = 0, i_status = st_draft,
           i_issue_date = ''2024-05-01'', i_due_date = ''2024-05-15'', i_terms = 14, i_subtotal = m, i_vat = 0, i_total = m,
           i_paid = 0, i_reverse = False, i_customer_vat = '''', i_bill_to = '''', i_notes = '''', i_corrects = 0, i_entry = 0,
           i_created = '''', i_issued_at = '''', i_lines = [], i_client_name = '''', i_engagement_name = ''''\<rparr>], next_id = 2\<rparr>,
       invoice_lines := \<lparr>rows =
         [\<lparr>il_id = 1, il_invoice = 1, il_descr = ''work'', il_quantity = 1000, il_price = m, il_net = m, il_vat_rate = 0,
           il_vat_bp = 0, il_vat = 0, il_income = 3, il_time_entry = 0, il_expense = 0, il_ordinal = 0\<rparr>], next_id = 2\<rparr>\<rparr>"

lemma demo_drafted_ok: "books_ok (demo_drafted m)" "docs_ok (demo_drafted m)"
proof -
  show "books_ok (demo_drafted m)"
    using books_ok_cong [of "demo_drafted m" demo_books] demo_books_ok by (simp add: demo_drafted_def)
  show "docs_ok (demo_drafted m)"
    by (simp add: docs_ok_def keyed_def numbering_ok_def issued_numbers_def demo_drafted_def demo_books_def first_row_Cons)
qed

lemma demo_drafted_unlocked: "lock_covering (demo_drafted m) ''2024-05-01'' = None"
  using demo_unlocked by (simp add: lock_covering_None demo_drafted_def)

lemma demo_drafted_invoice:
  obtains iv where "get_invoice (demo_drafted m) 1 = Inr iv" "i_total iv = m" "i_vat iv = 0" "i_kind iv = kind_invoice"
    "i_status iv = st_draft" "i_issue_date iv = ''2024-05-01''" "i_lines iv \<noteq> []"
    "\<forall>l \<in> set (i_lines iv). il_net l = m \<and> il_income l = 3"
    "income_by_account (i_lines iv) = [(3, add64 0 m)]"
  using that by (simp add: get_invoice_def find_row_def first_row_Cons demo_drafted_def invoice_lines_of_def scan_invoice_def
    income_by_account_def)

lemma demo_drafted_ar: "account_by_system_key (demo_drafted m) sys_ar = Inr (demo_account 2 ''1200'' t_asset sys_ar)"
  by (simp add: account_by_system_key_def first_row_Cons demo_drafted_def demo_books_def demo_account_def sys_key_defs)

lemma demo_issue_tx:
  assumes "lines_storable (demo_drafted m) (List.map (numbered_line (number_of \<lparr>q_name = ''invoice'', q_prefix = ''INV-'', q_next = 1, q_padding = 4\<rparr> 1))
     (filter (\<lambda>p. \<not> posting_empty p) ps))"
  shows "\<exists>db'. issue_invoice_tx demo_clock 1 ps (demo_drafted m) = Inr ((), db')"
proof -
  let ?q = "\<lparr>q_name = ''invoice'', q_prefix = ''INV-'', q_next = 1, q_padding = 4\<rparr>"
  have row: "\<exists>iv. find_row i_id 1 (invoices (demo_drafted m)) = Some iv \<and> i_status iv = st_draft \<and> i_kind iv = kind_invoice"
    by (simp add: find_row_def first_row_Cons demo_drafted_def)
  then obtain iv where iv: "find_row i_id 1 (invoices (demo_drafted m)) = Some iv" "i_status iv = st_draft" "i_kind iv = kind_invoice"
    by blast
  define db1 where "db1 = (demo_drafted m)\<lparr>sequences := update_rows (\<lambda>q. q_name q = ''invoice'') (\<lambda>q. q\<lparr>q_next := q_next q + 1\<rparr>) (sequences (demo_drafted m))\<rparr>"
  have al: "allocate_number_tx (series_of (i_kind iv)) (demo_drafted m) = Inr (number_of ?q 1, db1)"
    by (simp add: allocate_number_tx_def series_of_def iv(3) db1_def demo_drafted_def demo_books_def first_row_Cons)
  let ?e = "document_entry demo_clock db1 iv (number_of ?q 1) ps"
  have "lines_storable db1 (e_lines ?e)"
    using assms by (simp add: document_entry_def lines_storable_def account_exists_def db1_def)
  moreover have "source_valid (e_source ?e)" by (simp add: document_entry_def source_valid_def iv(3))
  ultimately obtain k db2 where ins: "insert_entry_tx ?e db1 = Inr (k, db2)" "invoices db2 = invoices (demo_drafted m)"
    using insert_entry_tx_iff [of ?e db1] by (fastforce simp: db1_def)
  have "\<not> (\<exists>r \<in> set (rows (invoices db2)). i_id r \<noteq> 1 \<and> i_number r = number_of ?q 1)"
    by (simp add: ins(2) demo_drafted_def)
  then show ?thesis by (simp add: issue_invoice_tx_def iv(1,2) al ins(1))
qed

lemma demo_issues:
  assumes "m = 0 \<or> m = 1000"
  obtains iv' db' where "issue demo_clock 1 (demo_drafted m) = (Inr iv', db')"
proof -
  obtain iv where iv: "get_invoice (demo_drafted m) 1 = Inr iv" "i_total iv = m" "i_vat iv = 0" "i_kind iv = kind_invoice"
    "i_status iv = st_draft" "i_issue_date iv = ''2024-05-01''" "i_lines iv \<noteq> []" "income_by_account (i_lines iv) = [(3, add64 0 m)]"
    by (rule demo_drafted_invoice)
  have w: "mul64 1 m = m" "add64 0 m = m" using assms by (auto simp: mul64_def add64_def wrap64_id in64_def)
  define lab where "lab = (if i_number iv = [] then ''invoice'' else i_number iv)"
  define d where "d = lab @ em_dash @ i_client_name iv"
  have ps0: "invoice_postings (demo_drafted m) iv =
      (let ps = [place_posting 2 m d True, place_posting 3 m lab False]
       in if postings_debit ps \<noteq> postings_credit ps
          then Inl (Invalid (InvoiceFault (PostingsUnbalanced lab (postings_debit ps) (postings_credit ps)))) else Inr ps)"
    unfolding d_def lab_def by (simp add: invoice_postings_def demo_drafted_ar vat_postings_def iv w demo_account_def Let_def cong: if_cong)
  define ps where "ps = [place_posting 2 m d True, place_posting 3 m lab False]"
  have n: "neg64 0 = 0" "neg64 1000 = - 1000" "neg64 (- 1000) = 1000" by (simp_all add: neg64_def wrap64_id in64_def)
  have "postings_debit ps = m" "postings_credit ps = m"
    using assms by (auto simp: ps_def place_posting_def debit_def credit_def postings_debit_def postings_credit_def n add64_def wrap64_id in64_def)
  then have ps: "invoice_postings (demo_drafted m) iv = Inr ps" using ps0 by (simp add: ps_def)
  have pl: "\<forall>p \<in> set ps. (o_account p = 2 \<or> o_account p = 3) \<and> (\<not> posting_empty p \<longrightarrow> line_ok (posting_line p))"
    using assms by (auto simp: ps_def place_posting_def debit_def credit_def n line_ok_def posting_line_def posting_empty_def)
  have "account_exists (demo_drafted m) 2" "account_exists (demo_drafted m) 3"
    by (simp_all add: account_exists_def find_row_def first_row_Cons demo_drafted_def demo_books_def demo_account_def)
  with pl have "lines_storable (demo_drafted m) (List.map (numbered_line n) (filter (\<lambda>p. \<not> posting_empty p) ps))" for n
    by (auto simp: lines_storable_def numbered_line_def posting_line_def line_ok_def)
  from demo_issue_tx [OF this] obtain db' where tx: "issue_invoice_tx demo_clock 1 ps (demo_drafted m) = Inr ((), db')" by blast
  have "check_period_open (demo_drafted m) ''2024-05-01'' = None" by (simp add: check_period_open_def demo_drafted_unlocked)
  then have "issue demo_clock 1 (demo_drafted m) = (get_invoice db' 1, db')"
    using iv ps tx by (simp add: issue_def editable_def issue_invoice_def with_tx_def)
  moreover have "\<exists>x. get_invoice db' 1 = Inr x"
  proof (rule issue_tx_effect [OF tx])
    fix row q eid db2
    assume "find_row i_id 1 (invoices (demo_drafted m)) = Some row"
      "db' = flag_time_entries 1 (db2\<lparr>invoices := update_table (is_draft 1) (mark_issued demo_clock (number_of q (q_next q)) eid)
         (invoices (demo_drafted m))\<rparr>)"
    then show ?thesis by (simp add: get_invoice_def find_row_update_table mark_issued_def)
  qed
  ultimately show thesis using that by auto
qed

lemma issue_posts_receivable_witness:
  "\<exists>iv' db'. issue demo_clock 1 (demo_drafted 1000) = (Inr iv', db') \<and> i_number iv' = ''INV-0001'' \<and>
     net_of 2 (entry_rows db' (i_entry iv')) = 1000"
proof -
  obtain iv where iv: "get_invoice (demo_drafted 1000) 1 = Inr iv" "i_total iv = 1000" "i_kind iv = kind_invoice"
    "\<forall>l \<in> set (i_lines iv). il_net l = 1000 \<and> il_income l = 3"
    by (rule demo_drafted_invoice)
  obtain iv' db' where run: "issue demo_clock 1 (demo_drafted 1000) = (Inr iv', db')" by (rule demo_issues [of 1000]) simp
  have inc: "il_income l \<noteq> a_id (demo_account 2 ''1200'' t_asset sys_ar)" if "l \<in> set (i_lines iv)" for l
    using iv(4) that by (auto simp: demo_account_def)
  have num: "number_of \<lparr>q_name = ''invoice'', q_prefix = ''INV-'', q_next = 1, q_padding = 4\<rparr> 1 = ''INV-0001''"
    by code_simp
  have q: "first_row (\<lambda>q. q_name q = series_of (i_kind iv)) (sequences (demo_drafted 1000)) =
      Some \<lparr>q_name = ''invoice'', q_prefix = ''INV-'', q_next = 1, q_padding = 4\<rparr>"
    by (simp add: iv(3) series_of_def demo_drafted_def demo_books_def first_row_Cons)
  have rg: "in64 (i_total iv)" "i_total iv \<noteq> - (2 ^ 63)" by (simp_all add: iv(2) in64_def)
  obtain q' where f: "first_row (\<lambda>q. q_name q = series_of (i_kind iv)) (sequences (demo_drafted 1000)) = Some q'"
    "i_number iv' = number_of q' (q_next q')"
    "net_of (a_id (demo_account 2 ''1200'' t_asset sys_ar)) (entry_rows db' (i_entry iv')) =
       (if i_kind iv = kind_credit_note then - i_total iv else i_total iv)"
    using issue_posts_receivable [OF demo_drafted_ok iv(1) run demo_drafted_ar inc rg] by blast
  have "i_number iv' = ''INV-0001'' \<and> net_of 2 (entry_rows db' (i_entry iv')) = 1000"
    using f q num by (simp add: iv(2,3) demo_account_def)
  with run show ?thesis by blast
qed



section \<open>Recomputed drafts\<close>

definition unplaced :: "invoice_line \<Rightarrow> invoice_line" where
  "unplaced l = l\<lparr>il_id := 0, il_invoice := 0, il_ordinal := 0\<rparr>"

lemma unplaced_fields [simp]:
  "il_net (unplaced l) = il_net l" "il_vat (unplaced l) = il_vat l" "il_quantity (unplaced l) = il_quantity l"
  "il_price (unplaced l) = il_price l" "unplaced (l\<lparr>il_id := k, il_invoice := v, il_ordinal := n\<rparr>) = unplaced l"
  "unplaced (l\<lparr>il_invoice := v, il_ordinal := n, il_id := k\<rparr>) = unplaced l"
  by (simp_all add: unplaced_def)

lemma unplaced_map:
  assumes "List.map unplaced xs = List.map unplaced ys"
  shows "List.map il_net xs = List.map il_net ys" "List.map il_vat xs = List.map il_vat ys"
    "(\<forall>l \<in> set xs. il_net l = Money.extend (il_quantity l) (il_price l)) =
       (\<forall>l \<in> set ys. il_net l = Money.extend (il_quantity l) (il_price l))"
  using arg_cong [OF assms, of "List.map il_net"] arg_cong [OF assms, of "List.map il_vat"]
    arg_cong [OF assms, of "\<lambda>zs. \<forall>l \<in> set zs. il_net l = Money.extend (il_quantity l) (il_price l)"]
  by (simp_all add: comp_def)

lemma insert_invoice_lines_placed:
  assumes "insert_invoice_lines iid n ls db = Inr db'"
  shows "\<exists>news. rows (invoice_lines db') = rows (invoice_lines db) @ news \<and> List.map unplaced news = List.map unplaced ls \<and>
    (\<forall>l \<in> set news. il_invoice l = iid \<and> int n \<le> il_ordinal l) \<and> sorted (List.map (\<lambda>l. (il_ordinal l, il_id l)) news)"
  using assms
proof (induction ls arbitrary: n db)
  case (Cons l ls)
  let ?l = "l\<lparr>il_id := next_id (invoice_lines db), il_invoice := iid, il_ordinal := int n\<rparr>"
  let ?db1 = "db\<lparr>invoice_lines := insert_row (\<lambda>k r. r\<lparr>il_id := k\<rparr>) (l\<lparr>il_invoice := iid, il_ordinal := int n\<rparr>) (invoice_lines db)\<rparr>"
  from Cons.prems have "insert_invoice_lines iid (n + 1) ls ?db1 = Inr db'" by (auto split: if_splits)
  from Cons.IH [OF this] obtain news where w: "rows (invoice_lines db') = rows (invoice_lines ?db1) @ news"
    "List.map unplaced news = List.map unplaced ls" "\<forall>l \<in> set news. il_invoice l = iid \<and> int (n + 1) \<le> il_ordinal l"
    "sorted (List.map (\<lambda>l. (il_ordinal l, il_id l)) news)" by blast
  have "rows (invoice_lines db') = rows (invoice_lines db) @ (?l # news)" using w(1) by (simp add: insert_row_def)
  moreover have "List.map unplaced (?l # news) = List.map unplaced (l # ls)" using w(2) by simp
  moreover have "\<forall>l \<in> set (?l # news). il_invoice l = iid \<and> int n \<le> il_ordinal l" using w(3) by auto
  moreover have "sorted (List.map (\<lambda>l. (il_ordinal l, il_id l)) (?l # news))" using w(3,4) by (auto simp: less_eq_prod_def)
  ultimately show ?case by blast
qed simp

lemma prepare_line_net:
  "prepare_line db st inc rv n l0 = Inr l \<Longrightarrow> il_net l = Money.extend (il_quantity l) (il_price l)"
  by (auto simp: prepare_line_def Let_def split: if_splits option.splits sum.splits)

lemma prepare_lines_net:
  "prepare_lines db st inc rv n ls0 = Inr ls \<Longrightarrow> \<forall>l \<in> set ls. il_net l = Money.extend (il_quantity l) (il_price l)"
  by (induction ls0 arbitrary: n ls) (auto split: sum.splits dest: prepare_line_net)

lemma prepare_draft_shape:
  assumes "prepare_draft ck db i = Inr p"
  obtains t ls where "p = totalled t ls" "\<forall>l \<in> set ls. il_net l = Money.extend (il_quantity l) (il_price l)"
    "i_paid t = i_paid i" "i_entry t = i_entry i" "i_kind t = i_kind i"
proof -
  obtain st inc rv ls where "p = totalled (trimmed_draft (dated_draft ck st i)) ls"
    "prepare_lines db st inc rv 0 (i_lines (trimmed_draft (dated_draft ck st i))) = Inr ls"
    using assms by (auto simp: prepare_draft_def Let_def split: if_splits option.splits sum.splits)
  moreover have "i_paid (trimmed_draft (dated_draft ck st i)) = i_paid i" "i_entry (trimmed_draft (dated_draft ck st i)) = i_entry i"
    "i_kind (trimmed_draft (dated_draft ck st i)) = i_kind i"
    by (simp_all add: trimmed_draft_def dated_draft_def Let_def)
  ultimately show thesis using that prepare_lines_net by blast
qed


definition demo_draft :: invoice where
  "demo_draft =
     \<lparr>i_id = 0, i_kind = '''', i_number = ''X'', i_client = 1, i_engagement = 0, i_status = st_paid,
      i_issue_date = ''2024-05-01'', i_due_date = ''2024-05-15'', i_terms = 14, i_subtotal = 9, i_vat = 9, i_total = 9,
      i_paid = 77, i_reverse = False, i_customer_vat = '''', i_bill_to = '''', i_notes = '''', i_corrects = 0, i_entry = 5,
      i_created = '''', i_issued_at = '''',
      i_lines = [\<lparr>il_id = 0, il_invoice = 0, il_descr = ''work'', il_quantity = 2000, il_price = 500, il_net = 0, il_vat_rate = 1,
        il_vat_bp = 0, il_vat = 0, il_income = 3, il_time_entry = 0, il_expense = 0, il_ordinal = 0\<rparr>],
      i_client_name = '''', i_engagement_name = ''''\<rparr>"


end
