(* ===== verification/Payments.thy ===== *)
theory Payments
  imports Invoices
begin

text \<open>
  Money in and out: \<open>internal/accounting/payment.go\<close>, \<open>expense.go\<close> and \<open>funding.go\<close>.
  Each records a row and its balanced entry in one transaction; removing one posts a reversal and deletes
  the row. All of them keep the contract of a writer of books and documents.
\<close>

section \<open>A row with its entry\<close>

definition source_entry :: "string \<Rightarrow> string \<Rightarrow> string \<Rightarrow> string \<Rightarrow> posting list \<Rightarrow> entry" where
  "source_entry date memo src created ps =
     blank_entry\<lparr>e_date := date, e_memo := memo, e_source := src, e_created := created,
       e_lines := List.map posting_line ps\<rparr>"

text \<open>The common body of \<open>RecordPayment\<close>, \<open>RecordExpense\<close> and \<open>RecordFunding\<close> in the
  repository: the entry, the row that refers to it, the entry's reference back to the row.\<close>

definition record_source_tx :: "entry \<Rightarrow> (int \<Rightarrow> acct_db \<Rightarrow> acct_error + (int \<times> acct_db)) \<Rightarrow> acct_db \<Rightarrow> acct_error + (int \<times> acct_db)" where
  "record_source_tx e insert_source db =
     (case insert_entry_tx e db of Inl err \<Rightarrow> Inl err | Inr (eid, db1) \<Rightarrow>
      case insert_source eid db1 of Inl err \<Rightarrow> Inl err | Inr (k, db2) \<Rightarrow>
      Inr (k, db2\<lparr>entries := update_table (\<lambda>r. e_id r = eid) (\<lambda>r. r\<lparr>e_source_id := k\<rparr>) (entries db2)\<rparr>))"

section \<open>Payments\<close>

definition invoice_number :: "acct_db \<Rightarrow> int \<Rightarrow> string" where
  "invoice_number db k = (case find_row i_id k (invoices db) of None \<Rightarrow> '''' | Some r \<Rightarrow> i_number r)"

definition invoice_client :: "acct_db \<Rightarrow> int \<Rightarrow> int option" where
  "invoice_client db k = map_option i_client (find_row i_id k (invoices db))"

definition scan_payment :: "acct_db \<Rightarrow> payment \<Rightarrow> payment" where
  "scan_payment db y =
     y\<lparr>y_invoice_number := invoice_number db (y_invoice y),
       y_client_name := (case invoice_client db (y_invoice y) of None \<Rightarrow> '''' | Some c \<Rightarrow> client_name db c)\<rparr>"

definition get_payment :: "acct_db \<Rightarrow> int \<Rightarrow> acct_error + payment" where
  "get_payment db k = (case find_row y_id k (payments db) of None \<Rightarrow> Inl NotFound | Some y \<Rightarrow> Inr (scan_payment db y))"

record payment_filter =
  yf_invoice :: int
  yf_client :: int
  yf_from :: string
  yf_to :: string
  yf_limit :: int

definition payment_matches :: "acct_db \<Rightarrow> payment_filter \<Rightarrow> payment \<Rightarrow> bool" where
  "payment_matches db f y =
     ((yf_invoice f = 0 \<or> y_invoice y = yf_invoice f) \<and>
      (yf_client f = 0 \<or> invoice_client db (y_invoice y) = Some (yf_client f)) \<and>
      (yf_from f = '''' \<or> yf_from f \<le> y_paid_on y) \<and> (yf_to f = '''' \<or> y_paid_on y \<le> yf_to f))"

definition page_size :: "int \<Rightarrow> int" where
  "page_size n = (if n \<le> 0 \<or> 500 < n then 200 else n)"

definition list_payments :: "payment_filter \<Rightarrow> acct_db \<Rightarrow> payment list" where
  "list_payments f db =
     take (nat (page_size (yf_limit f))) (desc_by (\<lambda>y. (y_paid_on y, y_id y))
       (List.map (scan_payment db) (filter (payment_matches db f) (rows (payments db)))))"

definition insert_payment :: "payment \<Rightarrow> int \<Rightarrow> acct_db \<Rightarrow> acct_error + (int \<times> acct_db)" where
  "insert_payment y eid db =
     (if y_amount y \<le> 0 then Inl (Invalid (CheckRejected ''payment''))
      else if find_row i_id (y_invoice y) (invoices db) = None \<or> \<not> account_exists db (y_deposit y)
        then Inl (Invalid (MissingReference ''payment''))
      else Inr (next_id (payments db),
        db\<lparr>payments := insert_row (\<lambda>k r. r\<lparr>y_id := k\<rparr>)
             (y\<lparr>y_entry := eid, y_invoice_number := '''', y_client_name := ''''\<rparr>) (payments db)\<rparr>))"

definition record_payment_repo :: "payment \<Rightarrow> string \<Rightarrow> posting list \<Rightarrow> acct_db \<Rightarrow> (acct_error + payment) \<times> acct_db" where
  "record_payment_repo y memo ps db =
     (case with_tx (record_source_tx (source_entry (y_paid_on y) memo src_payment (y_created y) ps) (insert_payment y)) db of
        (Inl e, db1) \<Rightarrow> (Inl e, db1)
      | (Inr k, db1) \<Rightarrow>
          (case recalc_invoice_payments (y_invoice y) db1 of
             (Inl e, db2) \<Rightarrow> (Inl e, db2)
           | (Inr _, db2) \<Rightarrow> (get_payment db2 k, db2)))"

definition payment_state_fault :: "invoice \<Rightarrow> payment_fault option" where
  "payment_state_fault iv =
     (if i_status iv = st_draft then Some PayDraft
      else if i_status iv = st_void then Some (PayVoid (i_number iv))
      else if i_status iv = st_paid then Some (PayPaid (i_number iv))
      else None)"

definition payment_amount_fault :: "invoice \<Rightarrow> payment \<Rightarrow> payment_fault option" where
  "payment_amount_fault iv y =
     (if y_amount y \<le> 0 then Some PayNotPositive
      else if outstanding iv < y_amount y then Some (PayTooMuch (y_amount y) (outstanding iv) (i_number iv))
      else None)"

text \<open>An account given as 0 is the one with the system key.\<close>

definition account_or_system :: "acct_db \<Rightarrow> int \<Rightarrow> string \<Rightarrow> acct_error + int" where
  "account_or_system db i key =
     (if i = 0 then (case account_by_system_key db key of Inl e \<Rightarrow> Inl e | Inr a \<Rightarrow> Inr (a_id a)) else Inr i)"

definition payment_memo :: "invoice \<Rightarrow> string" where
  "payment_memo iv =
     ''Payment for '' @ i_number iv @ (if i_client_name iv \<noteq> '''' then em_dash @ i_client_name iv else '''')"

definition ready_payment :: "clock \<Rightarrow> payment \<Rightarrow> int \<Rightarrow> payment" where
  "ready_payment ck y deposit =
     y\<lparr>y_paid_on := (if y_paid_on y = '''' then today ck else y_paid_on y), y_deposit := deposit,
       y_method := (if trim_space (y_method y) = '''' then ''bank'' else trim_space (y_method y)),
       y_reference := trim_space (y_reference y), y_created := now_stamp ck\<rparr>"

definition record_payment :: "clock \<Rightarrow> payment \<Rightarrow> acct_db \<Rightarrow> (acct_error + payment) \<times> acct_db" where
  "record_payment ck y db =
     (case get_invoice db (y_invoice y) of
        Inl NotFound \<Rightarrow> (Inl (Invalid (PaymentFault (NoInvoice (y_invoice y)))), db)
      | Inl e \<Rightarrow> (Inl e, db)
      | Inr iv \<Rightarrow>
      case payment_state_fault iv of Some f \<Rightarrow> (Inl (Invalid (PaymentFault f)), db) | None \<Rightarrow>
      case payment_amount_fault iv y of Some f \<Rightarrow> (Inl (Invalid (PaymentFault f)), db) | None \<Rightarrow>
      let date = (if y_paid_on y = '''' then today ck else y_paid_on y) in
      case valid_date date of Some f \<Rightarrow> (Inl (Invalid (PostFault f)), db) | None \<Rightarrow>
      case check_period_open db date of Some e \<Rightarrow> (Inl e, db) | None \<Rightarrow>
      case account_or_system db (y_deposit y) sys_bank of Inl e \<Rightarrow> (Inl e, db) | Inr dep \<Rightarrow>
      case get_account db dep of Inl _ \<Rightarrow> (Inl (Invalid (PaymentFault (NoDeposit dep))), db) | Inr a \<Rightarrow>
      if a_type a \<noteq> t_asset
        then (Inl (Invalid (PaymentFault (DepositNotAsset (a_code a) (a_name a) (a_type a)))), db) else
      case account_by_system_key db sys_ar of Inl e \<Rightarrow> (Inl e, db) | Inr ar \<Rightarrow>
      record_payment_repo (ready_payment ck y dep) (payment_memo iv)
        [debit dep (y_amount y) (payment_memo iv), credit (a_id ar) (y_amount y) (payment_memo iv)] db)"

definition delete_payment_repo :: "int \<Rightarrow> acct_db \<Rightarrow> (acct_error + unit) \<times> acct_db" where
  "delete_payment_repo k db =
     (case get_payment db k of Inl e \<Rightarrow> (Inl e, db) | Inr y \<Rightarrow>
      case recalc_invoice_payments (y_invoice y) (db\<lparr>payments := delete_rows (\<lambda>r. y_id r = k) (payments db)\<rparr>) of
        (Inl e, db') \<Rightarrow> (Inl e, db')
      | (Inr _, db') \<Rightarrow> (Inr (), db'))"

text \<open>Removing a document's row after reversing its entry, which is dated today.\<close>

definition reverse_then :: "clock \<Rightarrow> int \<Rightarrow> string \<Rightarrow> (acct_db \<Rightarrow> (acct_error + unit) \<times> acct_db) \<Rightarrow> acct_db \<Rightarrow> (acct_error + unit) \<times> acct_db" where
  "reverse_then ck eid memo remove db =
     (if eid = 0 then remove db
      else case reverse_entry ck eid (today ck) memo db of
        (Inl e, db') \<Rightarrow> (Inl e, db')
      | (Inr _, db') \<Rightarrow> remove db')"

definition delete_payment :: "clock \<Rightarrow> int \<Rightarrow> acct_db \<Rightarrow> (acct_error + unit) \<times> acct_db" where
  "delete_payment ck k db =
     (case get_payment db k of Inl e \<Rightarrow> (Inl e, db) | Inr y \<Rightarrow>
      case check_period_open db (y_paid_on y) of Some e \<Rightarrow> (Inl e, db) | None \<Rightarrow>
      reverse_then ck (y_entry y) (''Reversal of payment for '' @ y_invoice_number y) (delete_payment_repo k) db)"

section \<open>Expenses\<close>

definition account_name :: "acct_db \<Rightarrow> int \<Rightarrow> string" where
  "account_name db i = (case find_row a_id i (accounts db) of None \<Rightarrow> '''' | Some a \<Rightarrow> a_name a)"

definition scan_expense :: "acct_db \<Rightarrow> expense \<Rightarrow> expense" where
  "scan_expense db x =
     x\<lparr>x_account_name := account_name db (x_account x), x_paid_from_name := account_name db (x_paid_from x),
       x_client_name := client_name db (x_client x)\<rparr>"

definition get_expense :: "acct_db \<Rightarrow> int \<Rightarrow> acct_error + expense" where
  "get_expense db k = (case find_row x_id k (expenses db) of None \<Rightarrow> Inl NotFound | Some x \<Rightarrow> Inr (scan_expense db x))"

record expense_filter =
  xf_from :: string
  xf_to :: string
  xf_account :: int
  xf_client :: int
  xf_billable_only :: bool
  xf_unrebilled :: bool
  xf_search :: string
  xf_limit :: int

definition expense_matches :: "expense_filter \<Rightarrow> expense \<Rightarrow> bool" where
  "expense_matches f x =
     (let s = trim_space (xf_search f); pat = ''%'' @ s @ ''%'' in
      (xf_from f = '''' \<or> xf_from f \<le> x_spent_on x) \<and> (xf_to f = '''' \<or> x_spent_on x \<le> xf_to f) \<and>
      (xf_account f = 0 \<or> x_account x = xf_account f) \<and> (xf_client f = 0 \<or> x_client x = xf_client f) \<and>
      (xf_billable_only f \<longrightarrow> x_billable x) \<and> (xf_unrebilled f \<longrightarrow> x_rebilled x = 0) \<and>
      (s = '''' \<or> like pat (x_vendor x) \<or> like pat (x_descr x)))"

definition list_expenses :: "expense_filter \<Rightarrow> acct_db \<Rightarrow> expense list" where
  "list_expenses f db =
     take (nat (page_size (xf_limit f))) (desc_by (\<lambda>x. (x_spent_on x, x_id x))
       (List.map (scan_expense db) (filter (expense_matches f) (rows (expenses db)))))"

definition insert_expense :: "expense \<Rightarrow> int \<Rightarrow> acct_db \<Rightarrow> acct_error + (int \<times> acct_db)" where
  "insert_expense x eid db =
     (if x_net x < 0 \<or> x_vat x < 0 \<or> x_total x < 0 then Inl (Invalid (CheckRejected ''expense''))
      else if \<not> account_exists db (x_account x) \<or> \<not> account_exists db (x_paid_from x) \<or>
          (x_vat_rate x \<noteq> 0 \<and> \<not> vat_rate_exists db (x_vat_rate x))
        then Inl (Invalid (MissingReference ''expense''))
      else Inr (next_id (expenses db),
        db\<lparr>expenses := insert_row (\<lambda>k r. r\<lparr>x_id := k\<rparr>)
             (x\<lparr>x_entry := eid, x_account_name := '''', x_paid_from_name := '''', x_client_name := ''''\<rparr>) (expenses db)\<rparr>))"

definition record_expense_repo :: "expense \<Rightarrow> string \<Rightarrow> posting list \<Rightarrow> acct_db \<Rightarrow> (acct_error + expense) \<times> acct_db" where
  "record_expense_repo x memo ps db =
     (case with_tx (record_source_tx (source_entry (x_spent_on x) memo src_expense (x_created x) ps) (insert_expense x)) db of
        (Inl e, db1) \<Rightarrow> (Inl e, db1)
      | (Inr k, db1) \<Rightarrow> (get_expense db1 k, db1))"

definition trimmed_expense :: "clock \<Rightarrow> expense \<Rightarrow> expense" where
  "trimmed_expense ck x =
     x\<lparr>x_spent_on := (if x_spent_on x = '''' then today ck else x_spent_on x), x_vendor := trim_space (x_vendor x),
       x_descr := trim_space (x_descr x), x_receipt := trim_space (x_receipt x)\<rparr>"

definition rated_expense :: "acct_db \<Rightarrow> expense \<Rightarrow> acct_error + expense" where
  "rated_expense db x =
     (if x_vat_rate x = 0 then Inr x
      else case get_vat_rate db (x_vat_rate x) of
        Inl _ \<Rightarrow> Inl (Invalid (ExpenseFault (ExpenseNoRate (x_vat_rate x))))
      | Inr rate \<Rightarrow> Inr (x\<lparr>x_vat_bp := r_bp rate\<rparr>))"

definition totalled_expense :: "clock \<Rightarrow> expense \<Rightarrow> int \<Rightarrow> expense" where
  "totalled_expense ck x paid_from =
     (let v = vat (x_net x) (x_vat_bp x)
      in x\<lparr>x_paid_from := paid_from, x_vat := v, x_total := add64 (x_net x) v, x_created := now_stamp ck\<rparr>)"

definition expense_memo :: "expense \<Rightarrow> string" where
  "expense_memo x = (if x_vendor x = '''' then x_descr x else x_vendor x)"

definition expense_postings :: "acct_db \<Rightarrow> expense \<Rightarrow> acct_error + posting list" where
  "expense_postings db x =
     (if x_vat x \<noteq> 0 \<and> x_reclaimable x then
        (case account_by_system_key db sys_vat_input of
           Inl e \<Rightarrow> Inl e
         | Inr va \<Rightarrow> Inr [debit (x_account x) (x_net x) (expense_memo x), debit (a_id va) (x_vat x) (expense_memo x @ '' VAT''),
                          credit (x_paid_from x) (x_total x) (expense_memo x)])
      else Inr [debit (x_account x) (x_total x) (expense_memo x), credit (x_paid_from x) (x_total x) (expense_memo x)])"

definition record_expense :: "clock \<Rightarrow> expense \<Rightarrow> acct_db \<Rightarrow> (acct_error + expense) \<times> acct_db" where
  "record_expense ck x0 db =
     (let x = trimmed_expense ck x0 in
      case valid_date (x_spent_on x) of Some f \<Rightarrow> (Inl (Invalid (PostFault f)), db) | None \<Rightarrow>
      case check_period_open db (x_spent_on x) of Some e \<Rightarrow> (Inl e, db) | None \<Rightarrow>
      if x_vendor x = '''' \<and> x_descr x = '''' then (Inl (Invalid (ExpenseFault ExpenseUnnamed)), db) else
      if x_net x \<le> 0 then (Inl (Invalid (ExpenseFault ExpenseNotPositive)), db) else
      case get_account db (x_account x) of Inl _ \<Rightarrow> (Inl (Invalid (ExpenseFault (NoCategory (x_account x)))), db) | Inr cat \<Rightarrow>
      if a_type cat \<noteq> t_expense \<and> a_type cat \<noteq> t_asset
        then (Inl (Invalid (ExpenseFault (BadCategory (a_code cat) (a_name cat) (a_type cat)))), db) else
      case account_or_system db (x_paid_from x) sys_bank of Inl e \<Rightarrow> (Inl e, db) | Inr from \<Rightarrow>
      case get_account db from of Inl _ \<Rightarrow> (Inl (Invalid (ExpenseFault (NoSource from))), db) | Inr src \<Rightarrow>
      if a_type src \<noteq> t_asset \<and> a_type src \<noteq> t_liability
        then (Inl (Invalid (ExpenseFault (BadSource (a_code src) (a_name src) (a_type src)))), db) else
      case rated_expense db x of Inl e \<Rightarrow> (Inl e, db) | Inr xr \<Rightarrow>
      let xt = totalled_expense ck xr from in
      if x_billable xt \<and> x_client xt = 0 then (Inl (Invalid (ExpenseFault BillableNoClient)), db) else
      case expense_postings db xt of Inl e \<Rightarrow> (Inl e, db) | Inr ps \<Rightarrow>
      record_expense_repo xt (expense_memo xt) ps db)"

definition delete_expense_repo :: "int \<Rightarrow> acct_db \<Rightarrow> (acct_error + unit) \<times> acct_db" where
  "delete_expense_repo k db =
     (if find_row x_id k (expenses db) = None then (Inl NotFound, db)
      else (Inr (), db\<lparr>expenses := delete_rows (\<lambda>r. x_id r = k) (expenses db)\<rparr>))"

definition delete_expense :: "clock \<Rightarrow> int \<Rightarrow> acct_db \<Rightarrow> (acct_error + unit) \<times> acct_db" where
  "delete_expense ck k db =
     (case get_expense db k of Inl e \<Rightarrow> (Inl e, db) | Inr x \<Rightarrow>
      if x_rebilled x \<noteq> 0 then (Inl (Invalid (ExpenseFault Rebilled)), db) else
      case check_period_open db (x_spent_on x) of Some e \<Rightarrow> (Inl e, db) | None \<Rightarrow>
      reverse_then ck (x_entry x) (''Reversal of expense: '' @ x_vendor x) (delete_expense_repo k) db)"

section \<open>Owner funding\<close>

definition scan_funding :: "acct_db \<Rightarrow> funding \<Rightarrow> funding" where
  "scan_funding db f =
     f\<lparr>f_cash_name := account_name db (f_cash f), f_owner_name := account_name db (f_owner f)\<rparr>"

definition get_funding :: "acct_db \<Rightarrow> int \<Rightarrow> acct_error + funding" where
  "get_funding db k = (case find_row f_id k (fundings db) of None \<Rightarrow> Inl NotFound | Some f \<Rightarrow> Inr (scan_funding db f))"

record funding_filter =
  ff_kind :: string
  ff_from :: string
  ff_to :: string
  ff_limit :: int

definition list_funding :: "funding_filter \<Rightarrow> acct_db \<Rightarrow> acct_error + funding list" where
  "list_funding f db =
     (if ff_kind f \<noteq> '''' \<and> \<not> funding_kind_valid (ff_kind f) then Inl (Invalid (FundingFault BadFundingFilter))
      else Inr (take (nat (page_size (ff_limit f))) (desc_by (\<lambda>x. (f_received_on x, f_id x))
        (List.map (scan_funding db) (filter (\<lambda>x. (ff_kind f = '''' \<or> f_kind x = ff_kind f) \<and>
           (ff_from f = '''' \<or> ff_from f \<le> f_received_on x) \<and> (ff_to f = '''' \<or> f_received_on x \<le> ff_to f))
           (rows (fundings db)))))))"

text \<open>The lines of the accounts with a system key, on entries dated up to a day.\<close>

definition keyed_lines :: "acct_db \<Rightarrow> string \<Rightarrow> (string \<Rightarrow> bool) \<Rightarrow> journal_line list" where
  "keyed_lines db key in_window =
     filter (\<lambda>l. (\<exists>e \<in> set (rows (entries db)). e_id e = l_entry l \<and> in_window (e_date e)) \<and>
                 (\<exists>a \<in> set (rows (accounts db)). a_id a = l_account l \<and> a_system_key a = key)) (rows (jlines db))"

definition credit_less_debit :: "journal_line list \<Rightarrow> acct_error + money" where
  "credit_less_debit ls =
     (case sql_sum (List.map l_credit ls) of Inl e \<Rightarrow> Inl e | Inr c \<Rightarrow>
      case sql_sum (List.map l_debit ls) of Inl e \<Rightarrow> Inl e | Inr d \<Rightarrow> Inr (c - d))"

definition owner_loan_balance :: "acct_db \<Rightarrow> string \<Rightarrow> acct_error + money" where
  "owner_loan_balance db as_of = credit_less_debit (keyed_lines db sys_owner_loan (\<lambda>d. d \<le> as_of))"

definition owner_loan_outstanding :: "clock \<Rightarrow> acct_db \<Rightarrow> string \<Rightarrow> acct_error + money" where
  "owner_loan_outstanding ck db as_of0 =
     (let as_of = (if as_of0 = '''' then today ck else as_of0) in
      case valid_date as_of of Some f \<Rightarrow> Inl (Invalid (PostFault f)) | None \<Rightarrow> owner_loan_balance db as_of)"

definition funding_owner_account :: "acct_db \<Rightarrow> funding \<Rightarrow> acct_error + account" where
  "funding_owner_account db f =
     (let want = (if f_kind f = fund_capital then t_equity else t_liability);
          key = (if f_kind f = fund_capital then sys_capital else sys_owner_loan)
      in if f_owner f = 0 then account_by_system_key db key
         else case get_account db (f_owner f) of
           Inl _ \<Rightarrow> Inl (Invalid (FundingFault (NoOwnerAccount (f_owner f))))
         | Inr a \<Rightarrow>
             if a_type a \<noteq> want then Inl (Invalid (FundingFault (OwnerWrongType (f_kind f) want (a_code a) (a_name a) (a_type a))))
             else if a_archived a then Inl (Invalid (FundingFault (OwnerArchived (a_code a) (a_name a))))
             else Inr a)"

definition funding_memo :: "funding \<Rightarrow> string" where
  "funding_memo f =
     (if f_kind f = fund_capital then ''Capital introduced'' @ em_dash @ f_from f
      else if f_kind f = fund_loan then ''Loan from '' @ f_from f
      else ''Loan repayment to '' @ f_from f)"

definition insert_funding :: "funding \<Rightarrow> int \<Rightarrow> acct_db \<Rightarrow> acct_error + (int \<times> acct_db)" where
  "insert_funding f eid db =
     (if f_amount f \<le> 0 \<or> \<not> funding_kind_valid (f_kind f) then Inl (Invalid (CheckRejected ''funding''))
      else if \<not> account_exists db (f_cash f) \<or> \<not> account_exists db (f_owner f)
        then Inl (Invalid (MissingReference ''funding''))
      else Inr (next_id (fundings db),
        db\<lparr>fundings := insert_row (\<lambda>k r. r\<lparr>f_id := k\<rparr>)
             (f\<lparr>f_entry := eid, f_cash_name := '''', f_owner_name := ''''\<rparr>) (fundings db)\<rparr>))"

definition record_funding_repo :: "funding \<Rightarrow> string \<Rightarrow> posting list \<Rightarrow> acct_db \<Rightarrow> (acct_error + funding) \<times> acct_db" where
  "record_funding_repo f memo ps db =
     (case with_tx (record_source_tx (source_entry (f_received_on f) memo src_funding (f_created f) ps) (insert_funding f)) db of
        (Inl e, db1) \<Rightarrow> (Inl e, db1)
      | (Inr k, db1) \<Rightarrow> (get_funding db1 k, db1))"

definition repayment_fault :: "acct_db \<Rightarrow> funding \<Rightarrow> string \<Rightarrow> acct_error option" where
  "repayment_fault db f date =
     (if f_kind f \<noteq> fund_repayment then None
      else case owner_loan_balance db date of
        Inl e \<Rightarrow> Some e
      | Inr out \<Rightarrow>
          if out \<le> 0 then Some (Invalid (FundingFault (NoLoan date)))
          else if out < f_amount f then Some (Invalid (FundingFault (RepayTooMuch (f_amount f) out date)))
          else None)"

definition ready_funding :: "clock \<Rightarrow> funding \<Rightarrow> string \<Rightarrow> int \<Rightarrow> int \<Rightarrow> funding" where
  "ready_funding ck f date cash owner =
     f\<lparr>f_received_on := date, f_cash := cash, f_owner := owner,
       f_from := (if trim_space (f_from f) = '''' then ''Owner'' else trim_space (f_from f)),
       f_reference := trim_space (f_reference f), f_note := trim_space (f_note f), f_created := now_stamp ck\<rparr>"

definition funding_postings :: "funding \<Rightarrow> posting list" where
  "funding_postings f =
     (if moves_in (f_kind f)
      then [debit (f_cash f) (f_amount f) (funding_memo f), credit (f_owner f) (f_amount f) (funding_memo f)]
      else [debit (f_owner f) (f_amount f) (funding_memo f), credit (f_cash f) (f_amount f) (funding_memo f)])"

definition funding_kind_fault :: "funding \<Rightarrow> funding_fault option" where
  "funding_kind_fault f =
     (if f_kind f = '''' then Some FundingKindMissing
      else if \<not> funding_kind_valid (f_kind f) then Some (BadFundingKind (f_kind f))
      else if f_amount f \<le> 0 then Some FundingNotPositive
      else None)"

definition record_funding :: "clock \<Rightarrow> funding \<Rightarrow> acct_db \<Rightarrow> (acct_error + funding) \<times> acct_db" where
  "record_funding ck f db =
     (case funding_kind_fault f of Some flt \<Rightarrow> (Inl (Invalid (FundingFault flt)), db) | None \<Rightarrow>
      let date = (if f_received_on f = '''' then today ck else f_received_on f) in
      case valid_date date of Some flt \<Rightarrow> (Inl (Invalid (PostFault flt)), db) | None \<Rightarrow>
      case check_period_open db date of Some e \<Rightarrow> (Inl e, db) | None \<Rightarrow>
      case account_or_system db (f_cash f) sys_bank of Inl e \<Rightarrow> (Inl e, db) | Inr cash \<Rightarrow>
      case get_account db cash of Inl _ \<Rightarrow> (Inl (Invalid (FundingFault (NoCash cash))), db) | Inr a \<Rightarrow>
      if a_type a \<noteq> t_asset then (Inl (Invalid (FundingFault (CashNotAsset (a_code a) (a_name a) (a_type a)))), db) else
      case funding_owner_account db f of Inl e \<Rightarrow> (Inl e, db) | Inr owner \<Rightarrow>
      case repayment_fault db f date of Some e \<Rightarrow> (Inl e, db) | None \<Rightarrow>
      let r = ready_funding ck f date cash (a_id owner) in
      record_funding_repo r (funding_memo r) (funding_postings r) db)"

definition delete_funding_repo :: "int \<Rightarrow> acct_db \<Rightarrow> (acct_error + unit) \<times> acct_db" where
  "delete_funding_repo k db = (Inr (), db\<lparr>fundings := delete_rows (\<lambda>r. f_id r = k) (fundings db)\<rparr>)"

definition loan_removal_fault :: "clock \<Rightarrow> acct_db \<Rightarrow> funding \<Rightarrow> acct_error option" where
  "loan_removal_fault ck db f =
     (if f_kind f \<noteq> fund_loan then None
      else case owner_loan_balance db (today ck) of
        Inl e \<Rightarrow> Some e
      | Inr out \<Rightarrow> if out < f_amount f then Some (Invalid (FundingFault (LoanRepaid (f_amount f) out))) else None)"

definition delete_funding :: "clock \<Rightarrow> int \<Rightarrow> acct_db \<Rightarrow> (acct_error + unit) \<times> acct_db" where
  "delete_funding ck k db =
     (case get_funding db k of Inl e \<Rightarrow> (Inl e, db) | Inr f \<Rightarrow>
      case check_period_open db (f_received_on f) of Some e \<Rightarrow> (Inl e, db) | None \<Rightarrow>
      case loan_removal_fault ck db f of Some e \<Rightarrow> (Inl e, db) | None \<Rightarrow>
      reverse_then ck (f_entry f) (''Reversal of '' @ to_lower (funding_memo f)) (delete_funding_repo k) db)"

section \<open>The contract\<close>

lemma journal_extends_cong:
  "entries a = entries db \<Longrightarrow> jlines a = jlines db \<Longrightarrow> periods a = periods db \<Longrightarrow> journal_extends a db' = journal_extends db db'"
  by (simp add: journal_extends_def lock_covering_def)

lemma keyed_update_last:
  assumes "keyed key (insert_row f r t)" "\<And>k r. key (f k r) = k"
  shows "update_table (\<lambda>x. key x = next_id t) g (insert_row f r t) = t\<lparr>rows := rows t @ [g (f (next_id t) r)], next_id := next_id t + 1\<rparr>"
proof -
  have "key x \<noteq> next_id t" if "x \<in> set (rows t)" for x
    using assms that by (force simp: keyed_def)
  then have "update_rows (\<lambda>x. key x = next_id t) g (rows t) = rows t" by (intro update_rows_none) simp
  then show ?thesis using assms(2) by (simp add: update_table_def insert_row_def update_rows_def)
qed

lemma record_source_books:
  assumes tx: "record_source_tx e ins db = Inr (k, db')" and ok: "books_ok db"
    and bal: "lines_balanced (e_lines e)" and unlocked: "lock_covering db (e_date e) = None"
    and ins: "\<And>eid d k d'. ins eid d = Inr (k, d') \<Longrightarrow> same_journal_tables d d' \<and> same_documents d d'"
  shows "books_ok db' \<and> journal_extends db db' \<and> same_documents db db'"
proof -
  obtain eid db1 db2 where w: "insert_entry_tx e db = Inr (eid, db1)" "ins eid db1 = Inr (k, db2)"
    "db' = db2\<lparr>entries := update_table (\<lambda>r. e_id r = eid) (\<lambda>r. r\<lparr>e_source_id := k\<rparr>) (entries db2)\<rparr>"
    using tx by (auto simp: record_source_tx_def split: sum.splits)
  have same: "same_journal_tables db1 db2" "same_documents db1 db2" using ins [OF w(2)] by auto
  note tx1 = w(1) [unfolded insert_entry_tx_iff]
  have ok1: "books_ok db1" by (rule insert_entry_books [OF w(1) ok bal])
  let ?e = "e\<lparr>e_source_id := k\<rparr>"
  let ?d = "db1\<lparr>entries := entries db'\<rparr>"
  have src: "insert_entry_tx ?e db = Inr (eid, ?d)"
  proof -
    have kd: "keyed e_id (insert_row (\<lambda>k r. r\<lparr>e_id := k\<rparr>) (e\<lparr>e_lines := []\<rparr>) (entries db))"
      using ok1 tx1 by (simp add: books_ok_def)
    have "entries db' = insert_row (\<lambda>k r. r\<lparr>e_id := k\<rparr>) (?e\<lparr>e_lines := []\<rparr>) (entries db)"
      using same(1) tx1 keyed_update_last [OF kd, of "\<lambda>r. r\<lparr>e_source_id := k\<rparr>"]
      by (simp add: w(3) same_journal_tables_def insert_row_def)
    with tx1 show ?thesis by (simp add: insert_entry_tx_iff)
  qed
  have "books_ok ?d" by (rule insert_entry_books [OF src ok]) (simp add: bal)
  moreover have "books_ok db' = books_ok ?d"
    by (rule books_ok_cong) (use same(1) in \<open>simp_all add: w(3) same_journal_tables_def\<close>)
  moreover have "journal_extends db ?d" by (rule insert_entry_extends [OF src]) (simp add: unlocked)
  then have "journal_extends db db'" using same(1) by (simp add: journal_extends_def w(3) same_journal_tables_def)
  moreover have "same_documents db db'" using same(2) tx1 by (simp add: same_documents_def w(3))
  ultimately show ?thesis by simp
qed

lemma source_entry_simps [simp]:
  "e_date (source_entry d m s c ps) = d" "e_lines (source_entry d m s c ps) = List.map posting_line ps"
  by (simp_all add: source_entry_def)

lemma two_postings_balanced:
  "lines_balanced (List.map posting_line [debit a m x, credit b m y])"
  by (simp add: lines_balanced_def posting_line_def debit_def credit_def add64_def wrap64_add_left)

lemma vat_postings_balanced:
  "lines_balanced (List.map posting_line [debit a n x, debit b v y, credit c (add64 n v) z])"
  by (simp add: lines_balanced_def posting_line_def debit_def credit_def add64_def wrap64_add_left)

lemma expense_postings_balanced:
  assumes "expense_postings db x = Inr ps" "x_total x = add64 (x_net x) (x_vat x)"
  shows "lines_balanced (List.map posting_line ps)"
  using assms two_postings_balanced vat_postings_balanced
  by (auto simp: expense_postings_def split: if_splits sum.splits)

lemma funding_postings_balanced: "lines_balanced (List.map posting_line (funding_postings f))"
  using two_postings_balanced by (simp add: funding_postings_def)

lemma insert_sources_same:
  "insert_payment y eid d = Inr (k, d') \<Longrightarrow> same_journal_tables d d' \<and> same_documents d d'"
  "insert_expense x eid d = Inr (k, d') \<Longrightarrow> same_journal_tables d d' \<and> same_documents d d'"
  "insert_funding f eid d = Inr (k, d') \<Longrightarrow> same_journal_tables d d' \<and> same_documents d d'"
  by (auto simp: insert_payment_def insert_expense_def insert_funding_def same_journal_tables_def same_documents_def split: if_splits)

text \<open>What the contract asks of one run, in one predicate.\<close>

definition lawful :: "acct_db \<Rightarrow> acct_db \<Rightarrow> bool" where
  "lawful db db' \<longleftrightarrow>
     (books_ok db \<longrightarrow> books_ok db' \<and> journal_extends db db') \<and> (docs_ok db \<longrightarrow> docs_ok db' \<and> documents_kept db db')"

lemma lawful_refl [simp]: "lawful db db"
  by (simp add: lawful_def)

lemma journal_extends_trans_same:
  "journal_extends db db1 \<Longrightarrow> same_journal_tables db1 db2 \<Longrightarrow> journal_extends db db2"
  by (simp add: journal_extends_def same_journal_tables_def)

lemma lawful_then_same:
  assumes "lawful db db1" "same_journal_tables db1 db2" "docs_ok db1 \<Longrightarrow> docs_ok db2 \<and> documents_kept db1 db2"
  shows "lawful db db2"
  using assms journal_extends_trans_same [of db db1 db2] same_journal_contract(1) [OF assms(2)] documents_kept_trans [of db db1 db2]
  by (auto simp: lawful_def)

lemma lawful_reverse: "lawful db (snd (reverse_entry ck i date memo db))"
  using reverse_entry_keeps reverse_entry_extends same_documents_contract [OF reverse_same_documents]
  by (simp add: lawful_def)

lemma lawful_source:
  assumes "\<And>eid d k d'. ins eid d = Inr (k, d') \<Longrightarrow> same_journal_tables d d' \<and> same_documents d d'"
    "lines_balanced (e_lines e)" "lock_covering db (e_date e) = None"
  shows "lawful db (snd (with_tx (record_source_tx e ins) db))"
proof (cases "record_source_tx e ins db")
  case (Inr p)
  then obtain k db' where tx: "record_source_tx e ins db = Inr (k, db')" by (cases p) simp
  have "same_documents db db'" if "books_ok db" using record_source_books [OF tx that assms(2,3,1)] by simp
  moreover have "same_documents db db'"
  proof -
    obtain eid db1 db2 where w: "insert_entry_tx e db = Inr (eid, db1)" "ins eid db1 = Inr (k, db2)"
      "db' = db2\<lparr>entries := update_table (\<lambda>r. e_id r = eid) (\<lambda>r. r\<lparr>e_source_id := k\<rparr>) (entries db2)\<rparr>"
      using tx by (auto simp: record_source_tx_def split: sum.splits)
    with assms(1) [OF w(2)] show ?thesis by (simp add: insert_entry_tx_iff same_documents_def)
  qed
  ultimately show ?thesis
    using record_source_books [OF tx _ assms(2,3,1)] same_documents_contract [of db db'] tx
    by (simp add: lawful_def with_tx_def)
qed (simp add: with_tx_def)

lemma lawful_reverse_then:
  assumes "\<And>d. same_journal_tables d (snd (rm d))" "\<And>d. docs_ok d \<Longrightarrow> docs_ok (snd (rm d)) \<and> documents_kept d (snd (rm d))"
  shows "lawful db (snd (reverse_then ck eid memo rm db))"
proof -
  have "lawful db (snd (rm db))" by (rule lawful_then_same [OF lawful_refl assms])
  moreover have "lawful db (snd (rm (snd (reverse_entry ck eid (today ck) memo db))))"
    by (rule lawful_then_same [OF lawful_reverse assms])
  ultimately show ?thesis
    using lawful_reverse [of db ck eid "today ck" memo]
    by (auto simp: reverse_then_def split: prod.splits sum.splits)
qed

text \<open>Early returns: a lawful run is one whose last branch is.\<close>

lemma lawful_option:
  "(q = None \<Longrightarrow> lawful db (snd b)) \<Longrightarrow> (\<And>f. q = Some f \<Longrightarrow> lawful db (snd (a f))) \<Longrightarrow>
     lawful db (snd (case q of None \<Rightarrow> b | Some f \<Rightarrow> a f))"
  by (cases q) simp_all

lemma lawful_sum:
  "(\<And>e. q = Inl e \<Longrightarrow> lawful db (snd (a e))) \<Longrightarrow> (\<And>x. q = Inr x \<Longrightarrow> lawful db (snd (b x))) \<Longrightarrow>
     lawful db (snd (case q of Inl e \<Rightarrow> a e | Inr x \<Rightarrow> b x))"
  by (cases q) simp_all

lemma lawful_if:
  "(c \<Longrightarrow> lawful db (snd a)) \<Longrightarrow> (\<not> c \<Longrightarrow> lawful db (snd b)) \<Longrightarrow> lawful db (snd (if c then a else b))"
  by simp

lemma lawful_stop: "lawful db (snd (r, db))"
  by simp

lemmas lawful_branches = lawful_option lawful_sum lawful_if lawful_stop

lemma record_payment_repo_lawful:
  assumes "lines_balanced (List.map posting_line ps)" "lock_covering db (y_paid_on y) = None"
  shows "lawful db (snd (record_payment_repo y memo ps db))"
proof -
  let ?tx = "with_tx (record_source_tx (source_entry (y_paid_on y) memo src_payment (y_created y) ps) (insert_payment y)) db"
  have l: "lawful db (snd ?tx)"
    by (rule lawful_source) (use assms insert_sources_same(1) in simp_all)
  have "lawful db (snd (recalc_invoice_payments (y_invoice y) (snd ?tx)))"
    by (rule lawful_then_same [OF l same_journal_status(2) recalc_docs])
  with l show ?thesis by (auto simp: record_payment_repo_def split: prod.splits sum.splits)
qed

lemma record_payment_lawful: "lawful db (snd (record_payment ck y db))"
proof -
  have "lawful db (snd (record_payment_repo (ready_payment ck y dep) memo
      [debit dep (y_amount y) memo, credit ar (y_amount y) memo] db))"
    if "lock_covering db (if y_paid_on y = '''' then today ck else y_paid_on y) = None" for dep ar memo
    by (rule record_payment_repo_lawful [OF two_postings_balanced]) (simp add: ready_payment_def that)
  then show ?thesis
    by (simp add: record_payment_def Let_def check_period_open_def split: sum.split option.split acct_error.split)
qed

lemma delete_payment_lawful: "lawful db (snd (delete_payment ck k db))"
proof -
  have del: "same_journal_tables d (d\<lparr>payments := t\<rparr>)" "same_documents d (d\<lparr>payments := t\<rparr>)" for d t
    by (simp_all add: same_journal_tables_def same_documents_def)
  have "same_journal_tables d (snd (delete_payment_repo k d))" for d
  proof -
    have "same_journal_tables d (snd (recalc_invoice_payments j (d\<lparr>payments := t\<rparr>)))" for j t
      using same_journal_status(2) [of "d\<lparr>payments := t\<rparr>" j] by (simp add: same_journal_tables_def)
    then show ?thesis
      by (simp add: delete_payment_repo_def same_journal_tables_def split: sum.split prod.split) (metis snd_conv)
  qed
  moreover have "docs_ok (snd (delete_payment_repo k d)) \<and> documents_kept d (snd (delete_payment_repo k d))" if "docs_ok d" for d
  proof -
    have "docs_ok (snd (recalc_invoice_payments j (d\<lparr>payments := t\<rparr>))) \<and> documents_kept d (snd (recalc_invoice_payments j (d\<lparr>payments := t\<rparr>)))" for j t
      using recalc_docs [of "d\<lparr>payments := t\<rparr>" j] same_documents_contract [OF del(2), of d t] that documents_kept_trans by blast
    with that show ?thesis
      by (simp add: delete_payment_repo_def split: sum.split prod.split) (metis snd_conv)
  qed
  ultimately have "lawful db (snd (reverse_then ck eid memo (delete_payment_repo k) db))" for eid memo
    by (rule lawful_reverse_then)
  then show ?thesis by (simp add: delete_payment_def split: sum.split option.split)
qed

lemma record_expense_repo_lawful:
  assumes "expense_postings db x = Inr ps" "x_total x = add64 (x_net x) (x_vat x)" "lock_covering db (x_spent_on x) = None"
  shows "lawful db (snd (record_expense_repo x memo ps db))"
proof -
  let ?tx = "with_tx (record_source_tx (source_entry (x_spent_on x) memo src_expense (x_created x) ps) (insert_expense x)) db"
  have "lawful db (snd ?tx)"
    by (rule lawful_source) (use assms expense_postings_balanced insert_sources_same(2) in simp_all)
  then show ?thesis by (auto simp: record_expense_repo_def split: prod.splits sum.splits)
qed

lemma record_expense_lawful: "lawful db (snd (record_expense ck x db))"
proof -
  have t: "x_total (totalled_expense ck x' f) = add64 (x_net (totalled_expense ck x' f)) (x_vat (totalled_expense ck x' f))"
    "x_spent_on (totalled_expense ck x' f) = x_spent_on x'" for x' f
    by (simp_all add: totalled_expense_def Let_def)
  have r: "x_spent_on x'' = x_spent_on x'" if "rated_expense db x' = Inr x''" for x' x''
    using that by (auto simp: rated_expense_def split: if_splits sum.splits)
  show ?thesis
    unfolding record_expense_def Let_def
    by (intro lawful_branches record_expense_repo_lawful) (simp_all add: t r check_period_open_def)
qed

lemma delete_expense_lawful: "lawful db (snd (delete_expense ck k db))"
proof -
  have same: "same_journal_tables d (snd (delete_expense_repo k d))" "same_documents d (snd (delete_expense_repo k d))" for d
    by (simp_all add: delete_expense_repo_def same_journal_tables_def same_documents_def)
  have "lawful db (snd (reverse_then ck eid memo (delete_expense_repo k) db))" for eid memo
    by (rule lawful_reverse_then [OF same(1)]) (use same_documents_contract [OF same(2)] in blast)
  then show ?thesis by (simp add: delete_expense_def split: sum.split option.split)
qed

lemma record_funding_repo_lawful:
  assumes "lock_covering db (f_received_on f) = None"
  shows "lawful db (snd (record_funding_repo f memo (funding_postings f) db))"
proof -
  let ?tx = "with_tx (record_source_tx (source_entry (f_received_on f) memo src_funding (f_created f) (funding_postings f)) (insert_funding f)) db"
  have "lawful db (snd ?tx)"
    by (rule lawful_source) (use assms funding_postings_balanced insert_sources_same(3) in simp_all)
  then show ?thesis by (auto simp: record_funding_repo_def split: prod.splits sum.splits)
qed

lemma record_funding_lawful: "lawful db (snd (record_funding ck f db))"
  unfolding record_funding_def Let_def
  by (intro lawful_branches record_funding_repo_lawful) (simp_all add: ready_funding_def check_period_open_def)

lemma delete_funding_lawful: "lawful db (snd (delete_funding ck k db))"
proof -
  have same: "same_journal_tables d (snd (delete_funding_repo k d))" "same_documents d (snd (delete_funding_repo k d))" for d
    by (simp_all add: delete_funding_repo_def same_journal_tables_def same_documents_def)
  have "lawful db (snd (reverse_then ck eid memo (delete_funding_repo k) db))" for eid memo
    by (rule lawful_reverse_then [OF same(1)]) (use same_documents_contract [OF same(2)] in blast)
  then show ?thesis by (simp add: delete_funding_def split: sum.split option.split)
qed

lemma documents_writer_lawful: "(\<And>db. lawful db (snd (run db))) \<Longrightarrow> documents_writer run"
  by unfold_locales (auto simp: lawful_def)

interpretation record_payment_d: documents_writer "record_payment ck y" for ck y
  by (rule documents_writer_lawful) (rule record_payment_lawful)

interpretation delete_payment_d: documents_writer "delete_payment ck k" for ck k
  by (rule documents_writer_lawful) (rule delete_payment_lawful)

interpretation record_expense_d: documents_writer "record_expense ck x" for ck x
  by (rule documents_writer_lawful) (rule record_expense_lawful)

interpretation delete_expense_d: documents_writer "delete_expense ck k" for ck k
  by (rule documents_writer_lawful) (rule delete_expense_lawful)

interpretation record_funding_d: documents_writer "record_funding ck f" for ck f
  by (rule documents_writer_lawful) (rule record_funding_lawful)

interpretation delete_funding_d: documents_writer "delete_funding ck k" for ck k
  by (rule documents_writer_lawful) (rule delete_funding_lawful)

end
