(* ===== verification/Settlement.thy ===== *)
theory Settlement
  imports Payments
begin

text \<open>
  What the operations of \<open>Payments\<close> achieve: a recorded payment settles its invoice up to the total and moves
  the amount out of receivables; a repayment lowers the owner's loan on every later day.
\<close>

section \<open>What recording a payment does\<close>

lemma get_invoice_cong:
  "invoices a = invoices b \<Longrightarrow> invoice_lines a = invoice_lines b \<Longrightarrow> crm_clients a = crm_clients b \<Longrightarrow>
     crm_engagements a = crm_engagements b \<Longrightarrow> get_invoice a j = get_invoice b j"
  by (simp add: get_invoice_def scan_invoice_def invoice_lines_of_def client_name_def engagement_name_def cong: option.case_cong)

lemma record_payment_success:
  assumes "record_payment ck y db = (Inr y', db')"
  obtains iv dep a ar where "get_invoice db (y_invoice y) = Inr iv" "payment_state_fault iv = None" "payment_amount_fault iv y = None"
    "get_account db dep = Inr a" "a_type a = t_asset" "account_by_system_key db sys_ar = Inr ar"
    "record_payment_repo (ready_payment ck y dep) (payment_memo iv)
        [debit dep (y_amount y) (payment_memo iv), credit (a_id ar) (y_amount y) (payment_memo iv)] db = (Inr y', db')"
  using assms
  by (auto simp: record_payment_def Let_def split: sum.splits option.splits if_splits acct_error.splits)

lemma recalc_success:
  assumes "recalc_invoice_payments k db = (Inr iv', db')"
  obtains iv paid where "get_invoice db k = Inr iv" "sql_sum (List.map y_amount (filter (\<lambda>y. y_invoice y = k) (rows (payments db)))) = Inr paid"
    "db' = db\<lparr>invoices := update_table (\<lambda>r. i_id r = k) (\<lambda>r. r\<lparr>i_paid := paid, i_status := payment_status (iv\<lparr>i_paid := paid\<rparr>)\<rparr>) (invoices db)\<rparr>"
    "i_paid iv' = paid" "i_status iv' = payment_status (iv\<lparr>i_paid := paid\<rparr>)" "i_total iv' = i_total iv" "get_invoice db' k = Inr iv'"
proof -
  obtain iv paid where w: "get_invoice db k = Inr iv" "sql_sum (List.map y_amount (filter (\<lambda>y. y_invoice y = k) (rows (payments db)))) = Inr paid"
    using assms by (auto simp: recalc_invoice_payments_def split: sum.splits)
  define s where "s = payment_status (iv\<lparr>i_paid := paid\<rparr>)"
  have db': "db' = db\<lparr>invoices := update_table (\<lambda>r. i_id r = k) (\<lambda>r. r\<lparr>i_paid := paid, i_status := s\<rparr>) (invoices db)\<rparr>"
    and g: "get_invoice db' k = Inr iv'"
    using assms w by (auto simp: recalc_invoice_payments_def Let_def s_def)
  obtain row where row: "find_row i_id k (invoices db) = Some row" "iv = (scan_invoice db row)\<lparr>i_lines := invoice_lines_of db k\<rparr>"
    using get_invoice_row [OF w(1)] by auto
  have rid: "i_id row = k" using find_row_Some [OF row(1)] by simp
  have "find_row i_id k (invoices db') = Some (row\<lparr>i_paid := paid, i_status := s\<rparr>)"
    unfolding db' by (simp add: find_row_update_table row(1) rid)
  then have "i_paid iv' = paid" "i_status iv' = s" "i_total iv' = i_total iv"
    using g by (auto simp: get_invoice_def scan_invoice_def row(2))
  with w db' g show thesis using that unfolding s_def by blast
qed

lemma record_payment_repo_success:
  assumes "record_payment_repo y memo ps db = (Inr y', db')"
  obtains eid k db1 db2 iv' where
    "insert_entry_tx (source_entry (y_paid_on y) memo src_payment (y_created y) ps) db = Inr (eid, db1)"
    "insert_payment y eid db1 = Inr (k, db2)"
    "recalc_invoice_payments (y_invoice y)
       (db2\<lparr>entries := update_table (\<lambda>r. e_id r = eid) (\<lambda>r. r\<lparr>e_source_id := k\<rparr>) (entries db2)\<rparr>) = (Inr iv', db')"
    "get_payment db' k = Inr y'"
  using assms
  by (auto simp: record_payment_repo_def record_source_tx_def with_tx_def split: sum.splits prod.splits)

definition paid_of :: "acct_db \<Rightarrow> int \<Rightarrow> money" where
  "paid_of db k = sum_list (List.map y_amount (filter (\<lambda>y. y_invoice y = k) (rows (payments db))))"

lemma net_two_lines:
  "a \<noteq> b \<Longrightarrow> net_of a (List.map posting_line [debit a m x, credit b m z]) = m"
  "a \<noteq> b \<Longrightarrow> net_of b (List.map posting_line [debit a m x, credit b m z]) = - m"
  by (simp_all add: net_of_def posting_line_def debit_def credit_def)

text \<open>The rows a recorded payment leaves.\<close>

lemma record_payment_rows:
  assumes ok: "books_ok db" and pays: "keyed y_id (payments db)" and run: "record_payment_repo y memo ps db = (Inr y', db')"
  shows "entry_rows db' (y_entry y') = line_rows (next_id (jlines db)) (y_entry y') 0 (List.map posting_line ps)"
    "y_deposit y' = y_deposit y" "rows (payments db') = rows (payments db) @ [y\<lparr>y_id := y_id y', y_entry := y_entry y', y_invoice_number := '''', y_client_name := ''''\<rparr>]"
    "\<exists>iv iv'. get_invoice db (y_invoice y) = Inr iv \<and> get_invoice db' (y_invoice y) = Inr iv' \<and> i_total iv' = i_total iv \<and>
       i_paid iv' = paid_of db' (y_invoice y) \<and> i_status iv' = payment_status (iv\<lparr>i_paid := i_paid iv'\<rparr>)"
proof -
  obtain eid k db1 db2 iv' where w:
    "insert_entry_tx (source_entry (y_paid_on y) memo src_payment (y_created y) ps) db = Inr (eid, db1)"
    "insert_payment y eid db1 = Inr (k, db2)"
    "recalc_invoice_payments (y_invoice y)
       (db2\<lparr>entries := update_table (\<lambda>r. e_id r = eid) (\<lambda>r. r\<lparr>e_source_id := k\<rparr>) (entries db2)\<rparr>) = (Inr iv', db')"
    "get_payment db' k = Inr y'"
    by (rule record_payment_repo_success [OF run])
  define db3 where "db3 = db2\<lparr>entries := update_table (\<lambda>r. e_id r = eid) (\<lambda>r. r\<lparr>e_source_id := k\<rparr>) (entries db2)\<rparr>"
  obtain iv paid where r: "get_invoice db3 (y_invoice y) = Inr iv"
    "sql_sum (List.map y_amount (filter (\<lambda>x. y_invoice x = y_invoice y) (rows (payments db3)))) = Inr paid"
    "db' = db3\<lparr>invoices := update_table (\<lambda>r. i_id r = y_invoice y)
        (\<lambda>r. r\<lparr>i_paid := paid, i_status := payment_status (iv\<lparr>i_paid := paid\<rparr>)\<rparr>) (invoices db3)\<rparr>"
    "i_paid iv' = paid" "i_status iv' = payment_status (iv\<lparr>i_paid := paid\<rparr>)" "i_total iv' = i_total iv"
    "get_invoice db' (y_invoice y) = Inr iv'"
    using w(3) unfolding db3_def [symmetric] by (rule recalc_success)
  have ins: "k = next_id (payments db)" "payments db2 = insert_row (\<lambda>k r. r\<lparr>y_id := k\<rparr>)
      (y\<lparr>y_entry := eid, y_invoice_number := '''', y_client_name := ''''\<rparr>) (payments db)"
    "jlines db2 = jlines db1" "invoices db2 = invoices db" "invoice_lines db2 = invoice_lines db" "crm_clients db2 = crm_clients db"
    "crm_engagements db2 = crm_engagements db"
    using w(1,2) by (auto simp: insert_payment_def insert_entry_tx_iff split: if_splits)
  have p': "payments db' = payments db2" "jlines db' = jlines db1" by (simp_all add: r(3) db3_def ins(3))
  have "find_row y_id k (payments db') = Some (y\<lparr>y_entry := eid, y_invoice_number := '''', y_client_name := '''', y_id := k\<rparr>)"
    unfolding p'(1) ins(1,2) by (subst find_row_insert_row [OF pays]) simp_all
  then have y': "y_id y' = k" "y_entry y' = eid" "y_deposit y' = y_deposit y"
    using w(4) by (auto simp: get_payment_def scan_payment_def)
  show "y_deposit y' = y_deposit y" by (rule y')
  have er: "entry_rows db' eid = entry_rows db1 eid" by (simp add: entry_rows_def p'(2))
  show "entry_rows db' (y_entry y') = line_rows (next_id (jlines db)) (y_entry y') 0 (List.map posting_line ps)"
    using insert_entry_rows [OF w(1) ok, of eid] by (simp add: y' er)
  show "rows (payments db') = rows (payments db) @ [y\<lparr>y_id := y_id y', y_entry := y_entry y', y_invoice_number := '''', y_client_name := ''''\<rparr>]"
    unfolding p'(1) ins(2) by (simp add: y' ins(1))
  have g: "get_invoice db3 j = get_invoice db j" for j
    by (rule get_invoice_cong) (simp_all add: db3_def ins)
  have "paid_of db' (y_invoice y) = paid" using sql_sum_exact [OF r(2)] by (simp add: paid_of_def p'(1) db3_def)
  then show "\<exists>iv iv'. get_invoice db (y_invoice y) = Inr iv \<and> get_invoice db' (y_invoice y) = Inr iv' \<and> i_total iv' = i_total iv \<and>
       i_paid iv' = paid_of db' (y_invoice y) \<and> i_status iv' = payment_status (iv\<lparr>i_paid := i_paid iv'\<rparr>)"
    using r g by metis
qed

text \<open>C11: A payment is accepted only up to what is outstanding. Afterwards the invoice's paid amount is the sum of
  its payments and still within its total, its status says whether it is settled, and the entry moves the amount
  from receivables to the deposit account.\<close>

theorem record_payment_settles:
  assumes ok: "books_ok db" "keyed y_id (payments db)" and run: "record_payment ck y db = (Inr y', db')"
    and iv: "get_invoice db (y_invoice y) = Inr iv" "i_paid iv = paid_of db (y_invoice y)" "0 \<le> i_paid iv" "in64 (i_paid iv)"
      "0 \<le> i_total iv" "in64 (i_total iv)"
    and ar: "account_by_system_key db sys_ar = Inr ar" "y_deposit y' \<noteq> a_id ar"
  shows "\<exists>iv'. get_invoice db' (y_invoice y) = Inr iv' \<and> i_total iv' = i_total iv \<and> i_paid iv' = i_paid iv + y_amount y \<and>
    i_paid iv < i_paid iv' \<and> i_paid iv' \<le> i_total iv' \<and> i_paid iv' = paid_of db' (y_invoice y) \<and>
    i_status iv' = (if i_paid iv' = i_total iv' then st_paid else st_part_paid) \<and>
    net_of (y_deposit y') (entry_rows db' (y_entry y')) = y_amount y \<and> net_of (a_id ar) (entry_rows db' (y_entry y')) = - y_amount y"
proof -
  obtain iv0 dep a ar0 where w: "get_invoice db (y_invoice y) = Inr iv0" "payment_state_fault iv0 = None" "payment_amount_fault iv0 y = None"
    "account_by_system_key db sys_ar = Inr ar0"
    "record_payment_repo (ready_payment ck y dep) (payment_memo iv0)
        [debit dep (y_amount y) (payment_memo iv0), credit (a_id ar0) (y_amount y) (payment_memo iv0)] db = (Inr y', db')"
    by (rule record_payment_success [OF run])
  have same: "iv0 = iv" "ar0 = ar" using w iv ar by simp_all
  have amount: "0 < y_amount y" "y_amount y \<le> i_total iv - i_paid iv"
    using w(3) iv(3-6) by (auto simp: payment_amount_fault_def same outstanding_def sub64_def wrap64_id in64_def split: if_splits)
  have st: "i_status iv \<noteq> st_draft" "i_status iv \<noteq> st_void" using w(2) by (auto simp: payment_state_fault_def same split: if_splits)
  note rr = record_payment_rows [OF ok w(5)]
  have rp: "y_invoice (ready_payment ck y dep) = y_invoice y" "y_amount (ready_payment ck y dep) = y_amount y" "y_deposit (ready_payment ck y dep) = dep"
    by (simp_all add: ready_payment_def)
  have paid: "paid_of db' (y_invoice y) = i_paid iv + y_amount y" unfolding paid_of_def rr(3) by (simp add: iv(2) paid_of_def rp)
  obtain iv' where iv': "get_invoice db' (y_invoice y) = Inr iv'" "i_total iv' = i_total iv" "i_paid iv' = paid_of db' (y_invoice y)"
    "i_status iv' = payment_status (iv\<lparr>i_paid := i_paid iv'\<rparr>)"
    using rr(4) iv(1) unfolding rp by auto
  have "i_status iv' = (if i_paid iv' = i_total iv' then st_paid else st_part_paid)"
    using st amount iv(3) by (simp add: iv' payment_status_def paid)
  moreover have d: "dep \<noteq> a_id ar" using ar(2) rr(2) rp(3) by simp
  have "net_of (y_deposit y') (entry_rows db' (y_entry y')) = y_amount y" "net_of (a_id ar) (entry_rows db' (y_entry y')) = - y_amount y"
    by (simp_all only: rr(1,2) rp net_of_line_rows same net_two_lines [OF d])
  ultimately show ?thesis using iv' paid amount by auto
qed

definition demo_invoice :: "int \<Rightarrow> string \<Rightarrow> string \<Rightarrow> money \<Rightarrow> invoice" where
  "demo_invoice k kind number amount =
     \<lparr>i_id = k, i_kind = kind, i_number = number, i_client = 1, i_engagement = 0, i_status = st_issued,
      i_issue_date = ''2024-04-01'', i_due_date = ''2024-04-15'', i_terms = 14, i_subtotal = amount, i_vat = 0, i_total = amount,
      i_paid = 0, i_reverse = False, i_customer_vat = '''', i_bill_to = '''', i_notes = '''', i_corrects = 0, i_entry = k,
      i_created = '''', i_issued_at = '''', i_lines = [], i_client_name = '''', i_engagement_name = ''''\<rparr>"

definition demo_owing :: acct_db where
  "demo_owing = demo_books\<lparr>invoices := \<lparr>rows = [demo_invoice 1 kind_invoice ''INV-0001'' 1000], next_id = 2\<rparr>\<rparr>"

definition demo_payment :: "money \<Rightarrow> payment" where
  "demo_payment m =
     \<lparr>y_id = 0, y_invoice = 1, y_paid_on = ''2024-05-01'', y_amount = m, y_method = '''', y_reference = '''', y_deposit = 1,
      y_entry = 0, y_created = '''', y_invoice_number = '''', y_client_name = ''''\<rparr>"

lemma record_payment_settles_witness:
  "\<exists>y' db' iv'. record_payment demo_clock (demo_payment 400) demo_owing = (Inr y', db') \<and>
     get_invoice db' 1 = Inr iv' \<and> i_paid iv' = 400 \<and> i_status iv' = st_part_paid"
proof -
  have "books_ok demo_owing" using books_ok_cong [of demo_owing demo_books] demo_books_ok by (simp add: demo_owing_def)
  moreover have "keyed y_id (payments demo_owing)" by (simp add: keyed_def demo_owing_def demo_books_def)
  moreover have ev: "case fst (record_payment demo_clock (demo_payment 400) demo_owing) of Inl _ \<Rightarrow> False | Inr y \<Rightarrow> y_deposit y = 1"
    by code_simp
  then obtain y' db' where run: "record_payment demo_clock (demo_payment 400) demo_owing = (Inr y', db')"
    by (cases "record_payment demo_clock (demo_payment 400) demo_owing"; cases "fst (record_payment demo_clock (demo_payment 400) demo_owing)") auto
  moreover obtain iv where iv: "get_invoice demo_owing 1 = Inr iv" "i_paid iv = 0" "i_total iv = 1000"
    by (simp add: get_invoice_def find_row_def first_row_Cons demo_owing_def demo_invoice_def scan_invoice_def)
  moreover have "paid_of demo_owing 1 = 0" by (simp add: paid_of_def demo_owing_def demo_books_def)
  moreover have "account_by_system_key demo_owing sys_ar = Inr (demo_account 2 ''1200'' t_asset sys_ar)"
    by (simp add: account_by_system_key_def first_row_Cons demo_owing_def demo_books_def demo_account_def sys_key_defs)
  moreover have "y_deposit y' = 1"
    using ev run by simp
  ultimately show ?thesis
    using record_payment_settles [of demo_owing demo_clock "demo_payment 400" y' db' iv "demo_account 2 ''1200'' t_asset sys_ar"]
    by (auto simp: demo_payment_def demo_account_def in64_def)
qed

section \<open>The owner's loan\<close>

lemma record_source_journal:
  assumes tx: "record_source_tx e ins db = Inr (k, db')" and ok: "books_ok db" "lines_balanced (e_lines e)"
    and same: "\<And>eid d k d'. ins eid d = Inr (k, d') \<Longrightarrow> same_journal_tables d d'"
  shows "rows (entries db') = rows (entries db) @ [e\<lparr>e_lines := [], e_id := next_id (entries db), e_source_id := k\<rparr>] \<and>
    rows (jlines db') = rows (jlines db) @ line_rows (next_id (jlines db)) (next_id (entries db)) 0 (e_lines e) \<and>
    accounts db' = accounts db"
proof -
  obtain eid db1 db2 where w: "insert_entry_tx e db = Inr (eid, db1)" "ins eid db1 = Inr (k, db2)"
    "db' = db2\<lparr>entries := update_table (\<lambda>r. e_id r = eid) (\<lambda>r. r\<lparr>e_source_id := k\<rparr>) (entries db2)\<rparr>"
    using tx by (auto simp: record_source_tx_def split: sum.splits)
  note tx1 = w(1) [unfolded insert_entry_tx_iff]
  have s: "entries db2 = entries db1" "jlines db2 = jlines db1" "accounts db2 = accounts db1"
    using same [OF w(2)] by (simp_all add: same_journal_tables_def)
  have "books_ok db1" by (rule insert_entry_books [OF w(1) ok])
  then have kd: "keyed e_id (insert_row (\<lambda>k r. r\<lparr>e_id := k\<rparr>) (e\<lparr>e_lines := []\<rparr>) (entries db))"
    using tx1 by (simp add: books_ok_def)
  show ?thesis
    using tx1 keyed_update_last [OF kd, of "\<lambda>r. r\<lparr>e_source_id := k\<rparr>"] by (simp add: w(3) s)
qed

definition carries :: "acct_db \<Rightarrow> string \<Rightarrow> journal_line \<Rightarrow> bool" where
  "carries db key l = (\<exists>a \<in> set (rows (accounts db)). a_id a = l_account l \<and> a_system_key a = key)"

lemma keyed_lines_source:
  assumes tx: "record_source_tx e ins db = Inr (k, db')" and ok: "books_ok db" "lines_balanced (e_lines e)"
    and same: "\<And>eid d k d'. ins eid d = Inr (k, d') \<Longrightarrow> same_journal_tables d d'" and win: "w (e_date e)"
  shows "keyed_lines db' key w = keyed_lines db key w @
    filter (carries db key) (line_rows (next_id (jlines db)) (next_id (entries db)) 0 (e_lines e))"
proof -
  note j = record_source_journal [OF tx ok same]
  let ?new = "line_rows (next_id (jlines db)) (next_id (entries db)) 0 (e_lines e)"
  let ?in = "\<lambda>d l. (\<exists>x \<in> set (rows (entries d)). e_id x = l_entry l \<and> w (e_date x)) \<and> carries d key l"
  have car: "carries db' key = carries db key" using j by (simp add: carries_def fun_eq_iff)
  have old: "?in db' l = ?in db l" if "l \<in> set (rows (jlines db))" for l
  proof -
    have "l_entry l \<noteq> next_id (entries db)" using ok(1) that by (fastforce simp: books_ok_def keyed_def)
    then show ?thesis using j car by auto
  qed
  have new: "?in db' l = carries db key l" if "l \<in> set ?new" for l
    using j car win line_rows_entry [OF that] by auto
  have "keyed_lines d key w = filter (?in d) (rows (jlines d))" for d by (simp add: keyed_lines_def carries_def)
  then have "keyed_lines db' key w = filter (?in db') (rows (jlines db)) @ filter (?in db') ?new" using j by simp
  also have "\<dots> = filter (?in db) (rows (jlines db)) @ filter (carries db key) ?new"
    using filter_cong [OF refl, of "rows (jlines db)" "?in db'" "?in db"] filter_cong [OF refl, of ?new "?in db'" "carries db key"] old new by simp
  finally show ?thesis by (simp add: keyed_lines_def carries_def)
qed

definition loan_net :: "journal_line list \<Rightarrow> money" where
  "loan_net ls = sum_list (List.map (\<lambda>l. l_credit l - l_debit l) ls)"

lemma credit_less_debit_exact: "credit_less_debit ls = Inr b \<Longrightarrow> b = loan_net ls"
proof -
  assume "credit_less_debit ls = Inr b"
  then obtain c d where "sql_sum (List.map l_credit ls) = Inr c" "sql_sum (List.map l_debit ls) = Inr d" "b = c - d"
    by (auto simp: credit_less_debit_def split: sum.splits)
  then have "b = sum_list (List.map l_credit ls) - sum_list (List.map l_debit ls)" using sql_sum_exact by blast
  then show ?thesis by (simp add: loan_net_def sum_list_subtractf)
qed

lemma record_funding_success:
  assumes run: "record_funding ck f db = (Inr f', db')" and kind: "f_kind f = fund_repayment" and own: "f_owner f = 0"
    and ok: "books_ok db" "keyed f_id (fundings db)"
  obtains a k where "account_by_system_key db sys_owner_loan = Inr a" "f_owner f' = a_id a" "f_amount f' = f_amount f"
    "repayment_fault db f (f_received_on f') = None"
    "record_source_tx (source_entry (f_received_on f') (funding_memo f') src_funding (f_created f')
        [debit (a_id a) (f_amount f) (funding_memo f'), credit (f_cash f') (f_amount f) (funding_memo f')])
      (insert_funding (f'\<lparr>f_id := f_id f, f_entry := f_entry f, f_cash_name := f_cash_name f, f_owner_name := f_owner_name f\<rparr>)) db = Inr (k, db')"
proof -
  obtain date cash a where w: "repayment_fault db f date = None" "account_by_system_key db sys_owner_loan = Inr a"
    "record_funding_repo (ready_funding ck f date cash (a_id a)) (funding_memo (ready_funding ck f date cash (a_id a)))
       (funding_postings (ready_funding ck f date cash (a_id a))) db = (Inr f', db')"
    using run kind own
    by (auto simp: record_funding_def funding_owner_account_def Let_def fund_capital_def fund_repayment_def split: option.splits sum.splits if_splits)
  define r where "r = ready_funding ck f date cash (a_id a)"
  have r: "f_received_on r = date" "f_cash r = cash" "f_owner r = a_id a" "f_amount r = f_amount f" "f_kind r = f_kind f" "f_id r = f_id f"
    "f_entry r = f_entry f" "f_cash_name r = f_cash_name f" "f_owner_name r = f_owner_name f"
    by (simp_all add: r_def ready_funding_def)
  obtain k where tx: "record_source_tx (source_entry (f_received_on r) (funding_memo r) src_funding (f_created r) (funding_postings r))
      (insert_funding r) db = Inr (k, db')" and g: "get_funding db' k = Inr f'"
    using w(3) unfolding r_def [symmetric] by (auto simp: record_funding_repo_def with_tx_def split: sum.splits prod.splits)
  obtain eid where row: "find_row f_id k (fundings db') = Some (r\<lparr>f_entry := eid, f_cash_name := '''', f_owner_name := '''', f_id := k\<rparr>)"
  proof -
    obtain eid db1 db2 where v: "insert_entry_tx (source_entry (f_received_on r) (funding_memo r) src_funding (f_created r) (funding_postings r)) db = Inr (eid, db1)"
      "insert_funding r eid db1 = Inr (k, db2)"
      "db' = db2\<lparr>entries := update_table (\<lambda>r. e_id r = eid) (\<lambda>r. r\<lparr>e_source_id := k\<rparr>) (entries db2)\<rparr>"
      using tx by (auto simp: record_source_tx_def split: sum.splits)
    have "k = next_id (fundings db)" "fundings db' = insert_row (\<lambda>k r. r\<lparr>f_id := k\<rparr>) (r\<lparr>f_entry := eid, f_cash_name := '''', f_owner_name := ''''\<rparr>) (fundings db)"
      using v by (auto simp: insert_funding_def insert_entry_tx_iff split: if_splits)
    then show thesis using that find_row_insert_row [OF ok(2), of "\<lambda>k r. r\<lparr>f_id := k\<rparr>"] by simp
  qed
  have f': "f' = r\<lparr>f_entry := f_entry f', f_id := f_id f', f_cash_name := f_cash_name f', f_owner_name := f_owner_name f'\<rparr>"
    using g row by (auto simp: get_funding_def scan_funding_def)
  have memo: "funding_memo f' = funding_memo r" by (subst f') (simp add: funding_memo_def)
  have "funding_postings r = [debit (a_id a) (f_amount f) (funding_memo r), credit cash (f_amount f) (funding_memo r)]"
    by (simp add: funding_postings_def r moves_in_def kind)
  moreover have "f'\<lparr>f_id := f_id f, f_entry := f_entry f, f_cash_name := f_cash_name f, f_owner_name := f_owner_name f\<rparr> = r"
    by (subst f') (simp add: r flip: r(6-9))
  moreover have "f_received_on f' = date" "f_cash f' = cash" "f_owner f' = a_id a" "f_amount f' = f_amount f" "f_created f' = f_created r"
    by (subst f', simp add: r)+
  ultimately show thesis using that w(1,2) tx by (simp add: memo r)
qed

text \<open>C40: A repayment within the balance of its own day lowers the owner's loan by its amount on every later day
  too, whatever has been repaid since; a backdated one can leave the loan overdrawn.\<close>

theorem repayment_lowers_later_balances:
  assumes run: "record_funding ck f db = (Inr f', db')" and kind: "f_kind f = fund_repayment" and own: "f_owner f = 0"
    and ok: "books_ok db" "keyed f_id (fundings db)"
    and one: "\<forall>b \<in> set (rows (accounts db)). a_system_key b = sys_owner_loan \<longrightarrow> a_id b = f_owner f'" and cash: "f_cash f' \<noteq> f_owner f'"
    and d: "f_received_on f' \<le> d" and b: "owner_loan_balance db d = Inr b" and b': "owner_loan_balance db' d = Inr b'"
  shows "b' = b - f_amount f \<and> (\<exists>out. owner_loan_balance db (f_received_on f') = Inr out \<and> f_amount f \<le> out)"
proof (rule record_funding_success [OF run kind own ok])
  fix a k
  assume w: "account_by_system_key db sys_owner_loan = Inr a" "f_owner f' = a_id a" "repayment_fault db f (f_received_on f') = None"
    "record_source_tx (source_entry (f_received_on f') (funding_memo f') src_funding (f_created f')
        [debit (a_id a) (f_amount f) (funding_memo f'), credit (f_cash f') (f_amount f) (funding_memo f')])
      (insert_funding (f'\<lparr>f_id := f_id f, f_entry := f_entry f, f_cash_name := f_cash_name f, f_owner_name := f_owner_name f\<rparr>)) db = Inr (k, db')"
  have key: "a \<in> set (rows (accounts db))" "a_system_key a = sys_owner_loan"
    using w(1) by (auto simp: account_by_system_key_def split: option.splits dest: first_row_Some)
  have car: "carries db sys_owner_loan l = (l_account l = a_id a)" for l
    unfolding carries_def using key one w(2) by metis
  note k = keyed_lines_source [OF w(4) ok(1), of "\<lambda>x. x \<le> d" sys_owner_loan]
  have "keyed_lines db' sys_owner_loan (\<lambda>x. x \<le> d) = keyed_lines db sys_owner_loan (\<lambda>x. x \<le> d) @
      filter (\<lambda>l. l_account l = a_id a) (line_rows (next_id (jlines db)) (next_id (entries db)) 0
        (List.map posting_line [debit (a_id a) (f_amount f) (funding_memo f'), credit (f_cash f') (f_amount f) (funding_memo f')]))"
    using k two_postings_balanced insert_sources_same(3) d by (simp add: car)
  then have "loan_net (keyed_lines db' sys_owner_loan (\<lambda>x. x \<le> d)) = loan_net (keyed_lines db sys_owner_loan (\<lambda>x. x \<le> d)) - f_amount f"
    using cash w(2) by (simp add: loan_net_def posting_line_def debit_def credit_def line_row_def)
  then have "b' = b - f_amount f" using credit_less_debit_exact b b' unfolding owner_loan_balance_def by metis
  moreover have "\<exists>out. owner_loan_balance db (f_received_on f') = Inr out \<and> f_amount f \<le> out"
    using w(3) kind by (auto simp: repayment_fault_def split: sum.splits if_splits)
  ultimately show ?thesis by blast
qed

definition demo_funding :: "string \<Rightarrow> string \<Rightarrow> money \<Rightarrow> funding" where
  "demo_funding kind date m =
     \<lparr>f_id = 0, f_received_on = date, f_kind = kind, f_amount = m, f_from = ''Owner'', f_reference = '''', f_note = '''',
      f_cash = 1, f_owner = 0, f_entry = 0, f_created = '''', f_cash_name = '''', f_owner_name = ''''\<rparr>"

definition demo_repaid :: acct_db where
  "demo_repaid = snd (record_funding demo_clock (demo_funding fund_repayment ''2024-05-20'' 1000)
     (snd (record_funding demo_clock (demo_funding fund_loan ''2024-05-01'' 1000) demo_books)))"

lemma repayment_lowers_later_balances_witness:
  "\<exists>f' db'. record_funding demo_clock (demo_funding fund_repayment ''2024-05-10'' 600) demo_repaid = (Inr f', db') \<and>
     owner_loan_balance demo_repaid ''2024-05-20'' = Inr 0 \<and> owner_loan_balance db' ''2024-05-20'' = Inr (-600)"
proof -
  let ?f = "demo_funding fund_repayment ''2024-05-10'' 600"
  have ok: "books_ok demo_repaid"
    using record_funding_lawful [of demo_books] record_funding_lawful demo_books_ok unfolding demo_repaid_def lawful_def by blast
  have ev: "case record_funding demo_clock ?f demo_repaid of (Inl _, _) \<Rightarrow> False
      | (Inr f', db') \<Rightarrow> f_owner f' = 8 \<and> f_cash f' = 1 \<and> f_received_on f' = ''2024-05-10'' \<and> res_ok (owner_loan_balance db' ''2024-05-20'')"
    by code_simp
  then obtain f' db' b' where run: "record_funding demo_clock ?f demo_repaid = (Inr f', db')" "f_owner f' = 8" "f_cash f' = 1"
      "f_received_on f' = ''2024-05-10''" "owner_loan_balance db' ''2024-05-20'' = Inr b'"
    by (cases "record_funding demo_clock ?f demo_repaid"; cases "fst (record_funding demo_clock ?f demo_repaid)")
      (auto simp: res_ok_def split: sum.splits)
  have "owner_loan_balance demo_repaid ''2024-05-20'' = Inr 0" by code_simp
  moreover have "\<forall>b \<in> set (rows (accounts demo_repaid)). a_system_key b = sys_owner_loan \<longrightarrow> a_id b = 8" by code_simp
  moreover have "distinct (List.map f_id (rows (fundings demo_repaid))) \<and>
      (\<forall>r \<in> set (rows (fundings demo_repaid)). f_id r < next_id (fundings demo_repaid)) \<and> 0 < next_id (fundings demo_repaid)" by code_simp
  then have "keyed f_id (fundings demo_repaid)" by (simp add: keyed_def)
  moreover have "''2024-05-10'' \<le> ''2024-05-20''" by code_simp
  moreover have "f_kind ?f = fund_repayment" "f_owner ?f = 0" "f_amount ?f = 600" by (simp_all add: demo_funding_def)
  ultimately have "b' = 0 - 600" using repayment_lowers_later_balances [OF run(1) _ _ ok, of "''2024-05-20''" 0 b'] run by simp
  with run \<open>owner_loan_balance demo_repaid ''2024-05-20'' = Inr 0\<close> show ?thesis by simp
qed

end
