(* ===== verification/Reports.thy ===== *)
theory Reports
  imports Settlement
begin

text \<open>
  Reports: \<open>internal/accounting/reports.go\<close> over \<open>reports_repo.go\<close>. They read the ledger, the
  VAT figures also the documents. The headline results are that a trial balance and a balance sheet of books
  in order always balance, for every window, even where a total wraps around.
\<close>

section \<open>Balances\<close>

fun map_res :: "('a \<Rightarrow> 'e + 'b) \<Rightarrow> 'a list \<Rightarrow> 'e + 'b list" where
  "map_res f [] = Inr []"
| "map_res f (x # xs) =
     (case f x of Inl e \<Rightarrow> Inl e | Inr y \<Rightarrow> (case map_res f xs of Inl e \<Rightarrow> Inl e | Inr ys \<Rightarrow> Inr (y # ys)))"

definition in_window :: "string \<Rightarrow> string \<Rightarrow> string \<Rightarrow> bool" where
  "in_window from to d = (from \<le> d \<and> d \<le> to)"

definition window_lines :: "acct_db \<Rightarrow> string \<Rightarrow> string \<Rightarrow> journal_line list" where
  "window_lines db from to =
     filter (\<lambda>l. \<exists>e \<in> set (rows (entries db)). e_id e = l_entry l \<and> in_window from to (e_date e)) (rows (jlines db))"

text \<open>One row of \<open>Balances\<close>: the selected columns, the two sums, the balance in the account's own
  direction; the other columns are not read.\<close>

definition balance_row :: "acct_db \<Rightarrow> string \<Rightarrow> string \<Rightarrow> account \<Rightarrow> acct_error + account" where
  "balance_row db from to a =
     (let ls = filter (\<lambda>l. l_account l = a_id a) (window_lines db from to) in
      case sql_sum (List.map l_debit ls) of Inl e \<Rightarrow> Inl e | Inr d \<Rightarrow>
      case sql_sum (List.map l_credit ls) of Inl e \<Rightarrow> Inl e | Inr c \<Rightarrow>
      Inr (a\<lparr>a_parent := 0, a_descr := '''', a_created := '''', a_debit_total := d, a_credit_total := c,
             a_balance := (if debit_normal (a_type a) then sub64 d c else sub64 c d)\<rparr>))"

definition balances :: "acct_db \<Rightarrow> string \<Rightarrow> string \<Rightarrow> acct_error + account list" where
  "balances db from to = map_res (balance_row db from to) (sort_key a_code (rows (accounts db)))"

definition date_floor :: string where "date_floor = ''0000-01-01''"

definition date_ceiling :: string where "date_ceiling = ''9999-12-31''"

definition bound_from :: "string \<Rightarrow> string" where "bound_from d = (if d = '''' then date_floor else d)"

definition bound_to :: "string \<Rightarrow> string" where "bound_to d = (if d = '''' then date_ceiling else d)"

section \<open>Trial balance\<close>

record tb_row =
  tr_account :: int
  tr_code :: string
  tr_name :: string
  tr_type :: string
  tr_debit :: money
  tr_credit :: money

record trial_balance =
  tb_from :: string
  tb_to :: string
  tb_rows :: "tb_row list"
  tb_debit :: money
  tb_credit :: money
  tb_balanced :: bool

definition tb_step :: "trial_balance \<Rightarrow> account \<Rightarrow> trial_balance" where
  "tb_step tb a =
     (let net = sub64 (a_debit_total a) (a_credit_total a);
          row = \<lparr>tr_account = a_id a, tr_code = a_code a, tr_name = a_name a, tr_type = a_type a,
                 tr_debit = (if 0 \<le> net then net else 0), tr_credit = (if 0 \<le> net then 0 else neg64 net)\<rparr>
      in if net = 0 then tb
         else tb\<lparr>tb_debit := add64 (tb_debit tb) (tr_debit row), tb_credit := add64 (tb_credit tb) (tr_credit row),
                 tb_rows := tb_rows tb @ [row]\<rparr>)"

definition trial_balance_of :: "acct_db \<Rightarrow> string \<Rightarrow> string \<Rightarrow> acct_error + trial_balance" where
  "trial_balance_of db from0 to0 =
     (let from = bound_from from0; to = bound_to to0 in
      case balances db from to of Inl e \<Rightarrow> Inl e | Inr as \<Rightarrow>
      let tb = foldl tb_step \<lparr>tb_from = from, tb_to = to, tb_rows = [], tb_debit = 0, tb_credit = 0, tb_balanced = False\<rparr> as
      in Inr (tb\<lparr>tb_balanced := (tb_debit tb = tb_credit tb)\<rparr>))"

section \<open>Profit and loss, balance sheet\<close>

record report_line =
  rl_account :: int
  rl_code :: string
  rl_name :: string
  rl_type :: string
  rl_amount :: money
  rl_label :: string

definition report_line_of :: "account \<Rightarrow> money \<Rightarrow> report_line" where
  "report_line_of a m =
     \<lparr>rl_account = a_id a, rl_code = a_code a, rl_name = a_name a, rl_type = a_type a, rl_amount = m, rl_label = money_string m\<rparr>"

record profit_and_loss =
  pl_from :: string
  pl_to :: string
  pl_income :: "report_line list"
  pl_expenses :: "report_line list"
  pl_total_income :: money
  pl_total_expenses :: money
  pl_net_profit :: money

definition pl_step :: "profit_and_loss \<Rightarrow> account \<Rightarrow> profit_and_loss" where
  "pl_step pl a =
     (if a_type a = t_income then
        (let m = sub64 (a_credit_total a) (a_debit_total a) in
         if m = 0 then pl
         else pl\<lparr>pl_income := pl_income pl @ [report_line_of a m], pl_total_income := add64 (pl_total_income pl) m\<rparr>)
      else if a_type a = t_expense then
        (let m = sub64 (a_debit_total a) (a_credit_total a) in
         if m = 0 then pl
         else pl\<lparr>pl_expenses := pl_expenses pl @ [report_line_of a m], pl_total_expenses := add64 (pl_total_expenses pl) m\<rparr>)
      else pl)"

definition profit_and_loss_of :: "acct_db \<Rightarrow> string \<Rightarrow> string \<Rightarrow> acct_error + profit_and_loss" where
  "profit_and_loss_of db from0 to0 =
     (let from = bound_from from0; to = bound_to to0 in
      case balances db from to of Inl e \<Rightarrow> Inl e | Inr as \<Rightarrow>
      let pl = foldl pl_step \<lparr>pl_from = from, pl_to = to, pl_income = [], pl_expenses = [], pl_total_income = 0,
                 pl_total_expenses = 0, pl_net_profit = 0\<rparr> as
      in Inr (pl\<lparr>pl_net_profit := sub64 (pl_total_income pl) (pl_total_expenses pl)\<rparr>))"

record balance_sheet =
  bs_as_of :: string
  bs_assets :: "report_line list"
  bs_liabilities :: "report_line list"
  bs_equity :: "report_line list"
  bs_total_assets :: money
  bs_total_liabilities :: money
  bs_total_equity :: money
  bs_income :: money
  bs_expense :: money
  bs_earnings :: money
  bs_balanced :: bool

definition bs_step :: "balance_sheet \<Rightarrow> account \<Rightarrow> balance_sheet" where
  "bs_step bs a =
     (let d = sub64 (a_debit_total a) (a_credit_total a); c = neg64 d in
      if a_type a = t_asset then
        (if d = 0 then bs
         else bs\<lparr>bs_assets := bs_assets bs @ [report_line_of a d], bs_total_assets := add64 (bs_total_assets bs) d\<rparr>)
      else if a_type a = t_liability then
        (if c = 0 then bs
         else bs\<lparr>bs_liabilities := bs_liabilities bs @ [report_line_of a c], bs_total_liabilities := add64 (bs_total_liabilities bs) c\<rparr>)
      else if a_type a = t_equity then
        (if c = 0 then bs
         else bs\<lparr>bs_equity := bs_equity bs @ [report_line_of a c], bs_total_equity := add64 (bs_total_equity bs) c\<rparr>)
      else if a_type a = t_income then bs\<lparr>bs_income := add64 (bs_income bs) c\<rparr>
      else if a_type a = t_expense then bs\<lparr>bs_expense := add64 (bs_expense bs) d\<rparr>
      else bs)"

definition empty_sheet :: "string \<Rightarrow> balance_sheet" where
  "empty_sheet d =
     \<lparr>bs_as_of = d, bs_assets = [], bs_liabilities = [], bs_equity = [], bs_total_assets = 0, bs_total_liabilities = 0,
      bs_total_equity = 0, bs_income = 0, bs_expense = 0, bs_earnings = 0, bs_balanced = False\<rparr>"

definition close_sheet :: "balance_sheet \<Rightarrow> balance_sheet" where
  "close_sheet bs =
     (let earn = sub64 (bs_income bs) (bs_expense bs)
      in bs\<lparr>bs_earnings := earn,
            bs_balanced := (bs_total_assets bs = add64 (add64 (bs_total_liabilities bs) (bs_total_equity bs)) earn)\<rparr>)"

definition balance_sheet_of :: "clock \<Rightarrow> acct_db \<Rightarrow> string \<Rightarrow> acct_error + balance_sheet" where
  "balance_sheet_of ck db as_of0 =
     (let as_of = (if as_of0 = '''' then today ck else as_of0) in
      case valid_date as_of of Some f \<Rightarrow> Inl (Invalid (PostFault f)) | None \<Rightarrow>
      case balances db date_floor as_of of Inl e \<Rightarrow> Inl e | Inr as \<Rightarrow>
      Inr (close_sheet (foldl bs_step (empty_sheet as_of) as)))"

section \<open>Aged receivables\<close>

record ar_buckets =
  b_current :: money
  b_30 :: money
  b_60 :: money
  b_90 :: money
  b_older :: money
  b_total :: money

definition no_buckets :: ar_buckets where
  "no_buckets = \<lparr>b_current = 0, b_30 = 0, b_60 = 0, b_90 = 0, b_older = 0, b_total = 0\<rparr>"

definition bucket_add :: "int \<Rightarrow> money \<Rightarrow> ar_buckets \<Rightarrow> ar_buckets" where
  "bucket_add days m b0 =
     (let b = (if days \<le> 0 then b0\<lparr>b_current := add64 (b_current b0) m\<rparr>
               else if days \<le> 30 then b0\<lparr>b_30 := add64 (b_30 b0) m\<rparr>
               else if days \<le> 60 then b0\<lparr>b_60 := add64 (b_60 b0) m\<rparr>
               else if days \<le> 90 then b0\<lparr>b_90 := add64 (b_90 b0) m\<rparr>
               else b0\<lparr>b_older := add64 (b_older b0) m\<rparr>)
      in b\<lparr>b_total := add64 (b_total b) m\<rparr>)"

record ar_item =
  ai_invoice :: int
  ai_number :: string
  ai_issue_date :: string
  ai_due_date :: string
  ai_total :: money
  ai_paid :: money
  ai_outstanding :: money
  ai_days_overdue :: int

record ar_row =
  aw_client :: int
  aw_name :: string
  aw_buckets :: ar_buckets
  aw_items :: "ar_item list"

record ar_aging =
  ag_as_of :: string
  ag_rows :: "ar_row list"
  ag_totals :: ar_buckets

definition outstanding_invoices :: "acct_db \<Rightarrow> string \<Rightarrow> invoice list" where
  "outstanding_invoices db as_of =
     sort_key (\<lambda>i. (i_client_name i, i_due_date i, i_id i))
       (List.map (scan_invoice db)
         (filter (\<lambda>i. (i_status i = st_issued \<or> i_status i = st_part_paid) \<and> i_issue_date i \<le> as_of) (rows (invoices db))))"

definition days_overdue :: "civil \<Rightarrow> string \<Rightarrow> int" where
  "days_overdue ref due = (case parse_date due of None \<Rightarrow> 0 | Some d \<Rightarrow> days_between ref d)"

definition ar_item_of :: "invoice \<Rightarrow> int \<Rightarrow> ar_item" where
  "ar_item_of i days =
     \<lparr>ai_invoice = i_id i, ai_number = i_number i, ai_issue_date = i_issue_date i, ai_due_date = i_due_date i,
      ai_total = i_total i, ai_paid = i_paid i, ai_outstanding = outstanding i, ai_days_overdue = days\<rparr>"

text \<open>The row of a client is found or appended: rows stay in the order of first appearance.\<close>

fun add_to_rows :: "ar_row list \<Rightarrow> invoice \<Rightarrow> int \<Rightarrow> ar_row list" where
  "add_to_rows [] i days =
     [\<lparr>aw_client = i_client i, aw_name = i_client_name i, aw_buckets = bucket_add days (outstanding i) no_buckets,
       aw_items = [ar_item_of i days]\<rparr>]"
| "add_to_rows (w # ws) i days =
     (if aw_client w = i_client i
      then w\<lparr>aw_buckets := bucket_add days (outstanding i) (aw_buckets w), aw_items := aw_items w @ [ar_item_of i days]\<rparr> # ws
      else w # add_to_rows ws i days)"

definition aging_step :: "civil \<Rightarrow> ar_aging \<Rightarrow> invoice \<Rightarrow> ar_aging" where
  "aging_step ref ag i =
     (if outstanding i = 0 then ag
      else let days = days_overdue ref (i_due_date i)
           in ag\<lparr>ag_rows := add_to_rows (ag_rows ag) i days, ag_totals := bucket_add days (outstanding i) (ag_totals ag)\<rparr>)"

definition aged_receivables :: "clock \<Rightarrow> acct_db \<Rightarrow> string \<Rightarrow> acct_error + ar_aging" where
  "aged_receivables ck db as_of0 =
     (let as_of = (if as_of0 = '''' then today ck else as_of0) in
      case valid_date as_of of Some f \<Rightarrow> Inl (Invalid (PostFault f)) | None \<Rightarrow>
      case parse_date as_of of
        None \<Rightarrow> Inl (Invalid (PostFault (BadDate as_of)))
      | Some ref \<Rightarrow> Inr (foldl (aging_step ref) \<lparr>ag_as_of = as_of, ag_rows = [], ag_totals = no_buckets\<rparr>
                          (outstanding_invoices db as_of)))"

section \<open>VAT return\<close>

record vat_return =
  v_from :: string
  v_to :: string
  v_standard :: money
  v_zero :: money
  v_exempt :: money
  v_reverse :: money
  v_output :: money
  v_purchases :: money
  v_input :: money
  v_net_due :: money
  v_note :: string

definition line_vat_kind :: "acct_db \<Rightarrow> invoice_line \<Rightarrow> string" where
  "line_vat_kind db l = (case find_row r_id (il_vat_rate l) (vat_rates db) of None \<Rightarrow> vat_standard | Some v \<Rightarrow> r_kind v)"

text \<open>The joined rows of the sales query: treatment, document kind, net and VAT.\<close>

definition vat_rows :: "acct_db \<Rightarrow> string \<Rightarrow> string \<Rightarrow> (string \<times> string \<times> money \<times> money) list" where
  "vat_rows db from to =
     List.map_filter (\<lambda>l. case find_row i_id (il_invoice l) (invoices db) of
         None \<Rightarrow> None
       | Some i \<Rightarrow>
           if i_status i \<noteq> st_draft \<and> i_status i \<noteq> st_void \<and> in_window from to (i_issue_date i)
           then Some (line_vat_kind db l, i_kind i, il_net l, il_vat l) else None)
       (rows (invoice_lines db))"

definition vat_group :: "(string \<times> string \<times> money \<times> money) list \<Rightarrow> string \<times> string \<Rightarrow> acct_error + (string \<times> string \<times> money \<times> money)" where
  "vat_group rs g =
     (let mine = filter (\<lambda>(k, d, _, _). (k, d) = g) rs in
      case sql_sum (List.map (\<lambda>(_, _, n, _). n) mine) of Inl e \<Rightarrow> Inl e | Inr n \<Rightarrow>
      case sql_sum (List.map (\<lambda>(_, _, _, v). v) mine) of Inl e \<Rightarrow> Inl e | Inr v \<Rightarrow> Inr (fst g, snd g, n, v))"

definition vat_step :: "vat_return \<Rightarrow> string \<times> string \<times> money \<times> money \<Rightarrow> vat_return" where
  "vat_step r g =
     (case g of (k, d, n0, v0) \<Rightarrow>
        let n = (if d = kind_credit_note then neg64 n0 else n0); v = (if d = kind_credit_note then neg64 v0 else v0);
            r1 = (if k = vat_zero then r\<lparr>v_zero := add64 (v_zero r) n\<rparr>
                  else if k = vat_exempt then r\<lparr>v_exempt := add64 (v_exempt r) n\<rparr>
                  else if k = vat_reverse_charge then r\<lparr>v_reverse := add64 (v_reverse r) n\<rparr>
                  else r\<lparr>v_standard := add64 (v_standard r) n\<rparr>)
        in r1\<lparr>v_output := add64 (v_output r1) v\<rparr>)"

definition blank_return :: vat_return where
  "blank_return = \<lparr>v_from = '''', v_to = '''', v_standard = 0, v_zero = 0, v_exempt = 0, v_reverse = 0, v_output = 0,
     v_purchases = 0, v_input = 0, v_net_due = 0, v_note = ''''\<rparr>"

definition vat_totals :: "acct_db \<Rightarrow> string \<Rightarrow> string \<Rightarrow> acct_error + vat_return" where
  "vat_totals db from to =
     (let rs = vat_rows db from to in
      case map_res (vat_group rs) (sort (remdups (List.map (\<lambda>(k, d, _, _). (k, d)) rs))) of Inl e \<Rightarrow> Inl e | Inr gs \<Rightarrow>
      let xs = filter (\<lambda>x. in_window from to (x_spent_on x)) (rows (expenses db)) in
      case sql_sum (List.map x_net xs) of Inl e \<Rightarrow> Inl e | Inr net \<Rightarrow>
      case sql_sum (List.map (\<lambda>x. if x_reclaimable x then x_vat x else 0) xs) of Inl e \<Rightarrow> Inl e | Inr inp \<Rightarrow>
      Inr ((foldl vat_step blank_return gs)\<lparr>v_purchases := net, v_input := inp\<rparr>))"

definition vat_control_totals :: "acct_db \<Rightarrow> string \<Rightarrow> string \<Rightarrow> acct_error + (money \<times> money)" where
  "vat_control_totals db from to =
     (case credit_less_debit (keyed_lines db sys_vat_output (in_window from to)) of Inl e \<Rightarrow> Inl e | Inr out \<Rightarrow>
      case credit_less_debit (keyed_lines db sys_vat_input (in_window from to)) of Inl e \<Rightarrow> Inl e | Inr inp \<Rightarrow>
      Inr (out, neg64 inp))"

definition vat_note :: "money \<Rightarrow> money \<Rightarrow> money \<Rightarrow> money \<Rightarrow> string" where
  "vat_note lo li out inp =
     ''The VAT control accounts hold '' @ money_string lo @ '' output and '' @ money_string li @
     '' input, against '' @ money_string out @ '' and '' @ money_string inp @
     '' on the documents. The difference is manual journal activity on those accounts'' @ em_dash @
     ''check it before filing.''"

definition vat_return_summary :: "acct_db \<Rightarrow> string \<Rightarrow> string \<Rightarrow> acct_error + vat_return" where
  "vat_return_summary db from to =
     (case valid_date from of Some f \<Rightarrow> Inl (Invalid (PostFault f)) | None \<Rightarrow>
      case valid_date to of Some f \<Rightarrow> Inl (Invalid (PostFault f)) | None \<Rightarrow>
      if to < from then Inl (Invalid (PostFault (PeriodBackwards to from))) else
      case vat_totals db from to of Inl e \<Rightarrow> Inl e | Inr v0 \<Rightarrow>
      let v = v0\<lparr>v_from := from, v_to := to, v_net_due := sub64 (v_output v0) (v_input v0)\<rparr> in
      case vat_control_totals db from to of Inl e \<Rightarrow> Inl e | Inr (lo, li) \<Rightarrow>
      Inr (if lo \<noteq> v_output v \<or> li \<noteq> v_input v then v\<lparr>v_note := vat_note lo li (v_output v) (v_input v)\<rparr> else v))"

section \<open>Fiscal year\<close>

definition fiscal_year_start :: "string \<Rightarrow> int \<Rightarrow> string" where
  "fiscal_year_start date start_month0 =
     (case parse_date date of
        None \<Rightarrow> date
      | Some c \<Rightarrow>
          let sm = (if start_month0 < 1 \<or> 12 < start_month0 then 1 else start_month0);
              yr = (if int (cmonth c) < sm then int (cyear c) - 1 else int (cyear c))
          in fmt_padded 4 yr @ ''-'' @ fmt_padded 2 sm @ ''-01'')"

section \<open>Sums modulo 2^64\<close>

definition cg :: "int \<Rightarrow> int \<Rightarrow> bool" where
  "cg x y \<longleftrightarrow> (2 ^ 64 :: int) dvd (x - y)"

lemma cg_refl [simp]: "cg x x"
  by (simp add: cg_def)

lemma cg_trans [trans]: "cg x y \<Longrightarrow> cg y z \<Longrightarrow> cg x z"
  using dvd_add [of "2 ^ 64" "x - y" "y - z"] by (simp add: cg_def)

lemma cg_sym: "cg x y \<Longrightarrow> cg y x"
  using dvd_minus_iff [of "2 ^ 64" "x - y"] by (simp add: cg_def)

lemma cg_add: "cg x x' \<Longrightarrow> cg y y' \<Longrightarrow> cg (x + y) (x' + y')"
  using dvd_add [of "2 ^ 64" "x - x'" "y - y'"] by (simp add: cg_def algebra_simps)

lemma cg_minus: "cg x x' \<Longrightarrow> cg (- x) (- x')"
  using dvd_minus_iff [of "2 ^ 64" "x - x'"] by (simp add: cg_def)

lemma cg_diff: "cg x x' \<Longrightarrow> cg y y' \<Longrightarrow> cg (x - y) (x' - y')"
  using cg_add [OF _ cg_minus] by simp

lemma cg_wrap: "cg (wrap64 x) x"
  unfolding cg_def using wrap64_eq_iff [of "wrap64 x" x] by (simp only: wrap64_wrap64 simp_thms mod_eq_dvd_iff)

lemma cg_ops: "cg (add64 x y) (x + y)" "cg (sub64 x y) (x - y)" "cg (neg64 x) (- x)"
  by (simp_all add: add64_def sub64_def neg64_def cg_wrap)

lemma cg_eq:
  assumes "cg x y" "in64 x" "in64 y"
  shows "x = y"
proof -
  have "x mod 2 ^ 64 = y mod 2 ^ 64" using assms(1) by (simp only: cg_def mod_eq_dvd_iff)
  then have "wrap64 x = wrap64 y" by (simp only: wrap64_eq_iff)
  with assms(2,3) show ?thesis by (simp add: wrap64_id)
qed

lemma cg_sum_list: "(\<And>x. x \<in> set xs \<Longrightarrow> cg (f x) 0) \<Longrightarrow> cg (sum_list (List.map f xs)) 0"
proof (induction xs)
  case (Cons x xs)
  have "cg (f x + sum_list (List.map f xs)) (0 + 0)" by (rule cg_add) (use Cons in simp_all)
  then show ?case by simp
qed simp

section \<open>The ledger nets to nothing\<close>

definition net_line :: "journal_line \<Rightarrow> int" where
  "net_line l = l_debit l - l_credit l"

lemma sum_one_key:
  "distinct ks \<Longrightarrow> sum_list (List.map (\<lambda>k. if x = k then c else 0) ks) = (if x \<in> set ks then c else (0::int))"
  by (induction ks) auto

lemma sum_by_key:
  fixes f :: "'a \<Rightarrow> int"
  assumes "distinct ks" "\<And>l. l \<in> set ls \<Longrightarrow> key l \<in> set ks"
  shows "sum_list (List.map (\<lambda>k. sum_list (List.map f (filter (\<lambda>l. key l = k) ls))) ks) = sum_list (List.map f ls)"
  using assms(2)
proof (induction ls)
  case (Cons l ls)
  have one: "sum_list (List.map (\<lambda>k. if key l = k then f l else 0) ks) = f l"
    using assms(1) Cons.prems [of l] by (simp add: sum_one_key)
  have "sum_list (List.map (\<lambda>k. sum_list (List.map f (filter (\<lambda>l. key l = k) (l # ls)))) ks) =
      sum_list (List.map (\<lambda>k. (if key l = k then f l else 0) + sum_list (List.map f (filter (\<lambda>l. key l = k) ls))) ks)"
    by (rule arg_cong [where f = sum_list]) simp
  also have "\<dots> = f l + sum_list (List.map (\<lambda>k. sum_list (List.map f (filter (\<lambda>l. key l = k) ls))) ks)"
    by (simp add: sum_list_addf one)
  finally show ?case using Cons by simp
qed simp

lemma entry_nets: "lines_balanced ls \<Longrightarrow> cg (sum_list (List.map net_line ls)) 0"
proof -
  assume "lines_balanced ls"
  then have "sum64 (List.map l_debit ls) = sum64 (List.map l_credit ls)" by (simp add: lines_balanced_def sum64_def)
  then have "cg (sum_list (List.map l_debit ls)) (sum_list (List.map l_credit ls))"
    unfolding sum64_wrap by (metis cg_sym cg_trans cg_wrap)
  then have "cg (sum_list (List.map l_debit ls) - sum_list (List.map l_credit ls)) 0" by (simp add: cg_def)
  moreover have "sum_list (List.map net_line ls) = sum_list (List.map l_debit ls) - sum_list (List.map l_credit ls)"
    by (induction ls) (simp_all add: net_line_def)
  ultimately show ?thesis by simp
qed

lemma window_nets:
  assumes ok: "books_ok db"
  shows "cg (sum_list (List.map net_line (window_lines db from to))) 0"
proof -
  define ks where "ks = List.map e_id (filter (\<lambda>e. in_window from to (e_date e)) (rows (entries db)))"
  have d: "distinct ks" using ok by (simp add: ks_def books_ok_def keyed_def distinct_map_filter)
  have mem: "l_entry l \<in> set ks \<longleftrightarrow> (\<exists>e \<in> set (rows (entries db)). e_id e = l_entry l \<and> in_window from to (e_date e))" for l
    by (force simp: ks_def)
  have w: "window_lines db from to = filter (\<lambda>l. l_entry l \<in> set ks) (rows (jlines db))"
    by (simp add: window_lines_def mem)
  have "filter (\<lambda>l. l_entry l = k) (window_lines db from to) = entry_rows db k" if "k \<in> set ks" for k
    using that by (auto simp: w entry_rows_def intro: filter_cong)
  moreover have "lines_balanced (entry_rows db k)" if "k \<in> set ks" for k
    using that ok by (auto simp: ks_def books_ok_def)
  ultimately have "cg (sum_list (List.map net_line (filter (\<lambda>l. l_entry l = k) (window_lines db from to)))) 0" if "k \<in> set ks" for k
    using that entry_nets by simp
  then have "cg (sum_list (List.map (\<lambda>k. sum_list (List.map net_line (filter (\<lambda>l. l_entry l = k) (window_lines db from to)))) ks)) 0"
    by (rule cg_sum_list)
  moreover have "sum_list (List.map (\<lambda>k. sum_list (List.map net_line (filter (\<lambda>l. l_entry l = k) (window_lines db from to)))) ks) =
      sum_list (List.map net_line (window_lines db from to))"
    by (rule sum_by_key [OF d]) (simp add: w)
  ultimately show ?thesis by simp
qed

lemma map_res_Inr: "map_res f xs = Inr ys \<Longrightarrow> list_all2 (\<lambda>x y. f x = Inr y) xs ys"
  by (induction xs arbitrary: ys) (auto split: sum.splits)

definition net_account :: "account \<Rightarrow> int" where
  "net_account a = a_debit_total a - a_credit_total a"

lemma balance_row_Inr:
  assumes "balance_row db from to a = Inr b"
  shows "a_id b = a_id a \<and> a_type b = a_type a \<and> in64 (a_debit_total b) \<and> in64 (a_credit_total b) \<and>
    net_account b = sum_list (List.map net_line (filter (\<lambda>l. l_account l = a_id a) (window_lines db from to)))"
proof -
  let ?ls = "filter (\<lambda>l. l_account l = a_id a) (window_lines db from to)"
  obtain d c where w: "sql_sum (List.map l_debit ?ls) = Inr d" "sql_sum (List.map l_credit ?ls) = Inr c"
      "a_id b = a_id a" "a_type b = a_type a" "a_debit_total b = d" "a_credit_total b = c"
    using assms by (auto simp: balance_row_def Let_def split: sum.splits)
  have "sum_list (List.map net_line ls) = sum_list (List.map l_debit ls) - sum_list (List.map l_credit ls)" for ls
    by (induction ls) (simp_all add: net_line_def)
  with w sql_sum_exact [OF w(1)] sql_sum_exact [OF w(2)] sql_sum_in64 [OF w(1)] sql_sum_in64 [OF w(2)]
  show ?thesis by (simp add: net_account_def)
qed

lemma balances_net:
  assumes ok: "books_ok db" and bal: "balances db from to = Inr as"
  shows "cg (sum_list (List.map net_account as)) 0" "\<forall>a \<in> set as. account_type_valid (a_type a)"
proof -
  let ?s = "sort_key a_code (rows (accounts db))"
  let ?w = "window_lines db from to"
  have r: "list_all2 (\<lambda>a b. balance_row db from to a = Inr b) ?s as"
    using map_res_Inr [of "balance_row db from to" ?s as] bal by (simp add: balances_def)
  then have "List.map net_account as = List.map (\<lambda>a. sum_list (List.map net_line (filter (\<lambda>l. l_account l = a_id a) ?w))) ?s"
    by (induction rule: list_all2_induct) (simp_all add: balance_row_Inr)
  then have e: "sum_list (List.map net_account as) =
      sum_list (List.map (\<lambda>k. sum_list (List.map net_line (filter (\<lambda>l. l_account l = k) ?w))) (List.map a_id ?s))"
    by (simp add: comp_def)
  have "distinct (List.map a_id (rows (accounts db)))" using ok by (simp add: books_ok_def keyed_def)
  then have "distinct (List.map a_id ?s)" by (simp add: distinct_map)
  moreover have "l_account l \<in> set (List.map a_id ?s)" if "l \<in> set ?w" for l
  proof -
    have "account_exists db (l_account l)" using ok that by (auto simp: books_ok_def window_lines_def)
    then obtain a where "find_row a_id (l_account l) (accounts db) = Some a" by (auto simp: account_exists_def)
    from find_row_Some [OF this] show ?thesis by force
  qed
  ultimately have "sum_list (List.map net_account as) = sum_list (List.map net_line ?w)"
    unfolding e by (rule sum_by_key)
  then show "cg (sum_list (List.map net_account as)) 0" using window_nets [OF ok] by simp
  have "\<forall>a \<in> set ?s. account_type_valid (a_type a)" using ok by (simp add: books_ok_def)
  with r show "\<forall>a \<in> set as. account_type_valid (a_type a)"
    by (induction rule: list_all2_induct) (auto dest: balance_row_Inr)
qed

lemma tb_step_net:
  "cg (tb_debit (tb_step tb a) - tb_credit (tb_step tb a)) (tb_debit tb - tb_credit tb + net_account a)"
  "in64 (tb_debit tb) \<Longrightarrow> in64 (tb_debit (tb_step tb a))" "in64 (tb_credit tb) \<Longrightarrow> in64 (tb_credit (tb_step tb a))"
proof -
  define n where "n = sub64 (a_debit_total a) (a_credit_total a)"
  have n: "cg n (net_account a)" by (simp add: n_def net_account_def cg_ops)
  have p: "cg (add64 (tb_debit tb) x - add64 (tb_credit tb) y) (tb_debit tb + x - (tb_credit tb + y))" for x y
    by (rule cg_diff) (rule cg_ops)+
  have m: "cg (tb_debit tb - (tb_credit tb + neg64 n)) (tb_debit tb - tb_credit tb + net_account a)"
    using cg_add [OF cg_refl [of "tb_debit tb - tb_credit tb"] cg_trans [OF cg_minus [OF cg_ops(3) [of n]]]] n
    by (simp add: algebra_simps)
  have q: "cg (tb_debit tb + n - tb_credit tb) (tb_debit tb - tb_credit tb + net_account a)"
    using cg_add [OF cg_refl [of "tb_debit tb - tb_credit tb"] n] by (simp add: algebra_simps)
  show "cg (tb_debit (tb_step tb a) - tb_credit (tb_step tb a)) (tb_debit tb - tb_credit tb + net_account a)"
    using cg_trans [OF p [of n 0]] cg_trans [OF p [of 0 "neg64 n"]] q m n
    by (auto simp: tb_step_def Let_def n_def [symmetric])
  show "in64 (tb_debit tb) \<Longrightarrow> in64 (tb_debit (tb_step tb a))" "in64 (tb_credit tb) \<Longrightarrow> in64 (tb_credit (tb_step tb a))"
    by (simp_all add: tb_step_def Let_def add64_def)
qed

lemma tb_fold_net:
  "in64 (tb_debit tb) \<Longrightarrow> in64 (tb_credit tb) \<Longrightarrow>
     cg (tb_debit (foldl tb_step tb as) - tb_credit (foldl tb_step tb as)) (tb_debit tb - tb_credit tb + sum_list (List.map net_account as)) \<and>
     in64 (tb_debit (foldl tb_step tb as)) \<and> in64 (tb_credit (foldl tb_step tb as))"
proof (induction as arbitrary: tb)
  case (Cons a as)
  have "cg (tb_debit (tb_step tb a) - tb_credit (tb_step tb a) + sum_list (List.map net_account as))
      (tb_debit tb - tb_credit tb + net_account a + sum_list (List.map net_account as))"
    by (rule cg_add [OF tb_step_net(1) cg_refl])
  with Cons.IH [of "tb_step tb a"] Cons.prems tb_step_net(2,3) [of tb a] show ?case
    by (auto simp: add.assoc intro: cg_trans)
qed simp

text \<open>What a balance sheet says is missing, and that every account keeps it.\<close>

definition sheet_gap :: "balance_sheet \<Rightarrow> int" where
  "sheet_gap b = bs_total_assets b - bs_total_liabilities b - bs_total_equity b - bs_income b + bs_expense b"

lemma bs_step_net:
  assumes "account_type_valid (a_type a)"
  shows "cg (sheet_gap (bs_step b a)) (sheet_gap b + net_account a)"
proof -
  define d where "d = sub64 (a_debit_total a) (a_credit_total a)"
  have d: "cg d (net_account a)" by (simp add: d_def net_account_def cg_ops)
  have c: "cg (- neg64 d) (net_account a)" using cg_trans [OF cg_minus [OF cg_ops(3) [of d]]] d by simp
  have plus: "cg (add64 x d) (x + net_account a)" for x by (rule cg_trans [OF cg_ops(1) cg_add [OF cg_refl d]])
  have minus: "cg (- add64 x (neg64 d)) (- x + net_account a)" for x
    using cg_trans [OF cg_minus [OF cg_ops(1) [of x "neg64 d"]]] cg_add [OF cg_refl [of "- x"] c] by simp
  have gap: "cg (y + x) (y + z)" if "cg x z" for x y z by (rule cg_add [OF cg_refl that])
  have zero: "cg (sheet_gap b) (sheet_gap b + net_account a)" if "d = 0 \<or> neg64 d = 0"
  proof -
    have "cg 0 (net_account a)" using that d c by auto
    from cg_add [OF cg_refl [of "sheet_gap b"] this] show ?thesis by simp
  qed
  from assms consider "a_type a = t_asset" | "a_type a = t_liability" | "a_type a = t_equity" | "a_type a = t_income" | "a_type a = t_expense"
    by (auto simp: account_type_valid_def)
  then show ?thesis
  proof cases
    case 1
    have "cg (- bs_total_liabilities b - bs_total_equity b - bs_income b + bs_expense b + add64 (bs_total_assets b) d)
      (- bs_total_liabilities b - bs_total_equity b - bs_income b + bs_expense b + (bs_total_assets b + net_account a))"
      by (rule gap [OF plus])
    with 1 zero show ?thesis by (auto simp: bs_step_def Let_def d_def [symmetric] sheet_gap_def algebra_simps)
  next
    case 2
    have "cg (bs_total_assets b - bs_total_equity b - bs_income b + bs_expense b + - add64 (bs_total_liabilities b) (neg64 d))
      (bs_total_assets b - bs_total_equity b - bs_income b + bs_expense b + (- bs_total_liabilities b + net_account a))"
      by (rule gap [OF minus])
    with 2 zero show ?thesis by (auto simp: bs_step_def Let_def d_def [symmetric] sheet_gap_def algebra_simps)
  next
    case 3
    have "cg (bs_total_assets b - bs_total_liabilities b - bs_income b + bs_expense b + - add64 (bs_total_equity b) (neg64 d))
      (bs_total_assets b - bs_total_liabilities b - bs_income b + bs_expense b + (- bs_total_equity b + net_account a))"
      by (rule gap [OF minus])
    with 3 zero show ?thesis by (auto simp: bs_step_def Let_def d_def [symmetric] sheet_gap_def algebra_simps)
  next
    case 4
    have "cg (bs_total_assets b - bs_total_liabilities b - bs_total_equity b + bs_expense b + - add64 (bs_income b) (neg64 d))
      (bs_total_assets b - bs_total_liabilities b - bs_total_equity b + bs_expense b + (- bs_income b + net_account a))"
      by (rule gap [OF minus])
    with 4 show ?thesis by (simp add: bs_step_def Let_def d_def [symmetric] sheet_gap_def algebra_simps)
  next
    case 5
    have "cg (bs_total_assets b - bs_total_liabilities b - bs_total_equity b - bs_income b + add64 (bs_expense b) d)
      (bs_total_assets b - bs_total_liabilities b - bs_total_equity b - bs_income b + (bs_expense b + net_account a))"
      by (rule gap [OF plus])
    with 5 show ?thesis by (simp add: bs_step_def Let_def d_def [symmetric] sheet_gap_def algebra_simps)
  qed
qed

lemma bs_fold_net:
  "\<forall>a \<in> set as. account_type_valid (a_type a) \<Longrightarrow>
     cg (sheet_gap (foldl bs_step b as)) (sheet_gap b + sum_list (List.map net_account as))"
proof (induction as arbitrary: b)
  case (Cons a as)
  have "cg (sheet_gap (bs_step b a) + sum_list (List.map net_account as)) (sheet_gap b + net_account a + sum_list (List.map net_account as))"
    by (rule cg_add [OF bs_step_net cg_refl]) (use Cons.prems in simp)
  with Cons.IH [of "bs_step b a"] Cons.prems show ?case by (auto simp: add.assoc intro: cg_trans)
qed simp

section \<open>Aging\<close>

lemma bucket_add_total [simp]: "b_total (bucket_add d m b) = add64 (b_total b) m"
  by (simp add: bucket_add_def Let_def)

text \<open>A set of buckets whose parts make up its total.\<close>

definition buckets_ok :: "ar_buckets \<Rightarrow> bool" where
  "buckets_ok b \<longleftrightarrow> cg (b_current b + b_30 b + b_60 b + b_90 b + b_older b) (b_total b)"

lemma bucket_add_ok:
  assumes "buckets_ok b"
  shows "buckets_ok (bucket_add d m b)"
proof -
  have "cg (b_current b + b_30 b + b_60 b + b_90 b + b_older b + m) (b_total b + m)"
    using assms by (simp add: buckets_ok_def cg_def)
  then have t: "cg (b_current b + b_30 b + b_60 b + b_90 b + b_older b + m) (add64 (b_total b) m)"
    by (rule cg_trans [OF _ cg_sym [OF cg_ops(1)]])
  have a: "cg (x + add64 y m) (x + (y + m))" for x y by (rule cg_add [OF cg_refl cg_ops(1)])
  have "cg (x + add64 y m) (add64 (b_total b) m)"
    if "x + y = b_current b + b_30 b + b_60 b + b_90 b + b_older b" for x y
  proof -
    have "x + (y + m) = b_current b + b_30 b + b_60 b + b_90 b + b_older b + m" using that by simp
    with a [of x y] t show ?thesis by (metis cg_trans)
  qed
  from this [of "b_30 b + b_60 b + b_90 b + b_older b" "b_current b"] this [of "b_current b + b_60 b + b_90 b + b_older b" "b_30 b"]
    this [of "b_current b + b_30 b + b_90 b + b_older b" "b_60 b"] this [of "b_current b + b_30 b + b_60 b + b_older b" "b_90 b"]
    this [of "b_current b + b_30 b + b_60 b + b_90 b" "b_older b"]
  show ?thesis by (simp add: buckets_ok_def bucket_add_def Let_def add.commute add.left_commute)
qed

lemma add_to_rows_clients:
  "set (List.map aw_client (add_to_rows ws i d)) = insert (i_client i) (set (List.map aw_client ws))"
  by (induction ws) auto

lemma add_to_rows_distinct:
  "distinct (List.map aw_client ws) \<Longrightarrow> distinct (List.map aw_client (add_to_rows ws i d))"
proof (induction ws)
  case (Cons w ws)
  then show ?case using add_to_rows_clients [of ws i d] by auto
qed simp

lemma add_to_rows_total:
  "cg (sum_list (List.map (\<lambda>w. b_total (aw_buckets w)) (add_to_rows ws i d)))
     (sum_list (List.map (\<lambda>w. b_total (aw_buckets w)) ws) + outstanding i)"
proof (induction ws)
  case Nil
  show ?case using cg_ops(1) [of 0 "outstanding i"] by (simp add: no_buckets_def)
next
  case (Cons w ws)
  show ?case
  proof (cases "aw_client w = i_client i")
    case True
    have "cg (add64 (b_total (aw_buckets w)) (outstanding i) + s) (b_total (aw_buckets w) + outstanding i + s)" for s
      by (rule cg_add [OF cg_ops(1) cg_refl])
    with True show ?thesis by (simp add: cg_def algebra_simps)
  next
    case False
    have "cg (b_total (aw_buckets w) + sum_list (List.map (\<lambda>w. b_total (aw_buckets w)) (add_to_rows ws i d)))
      (b_total (aw_buckets w) + (sum_list (List.map (\<lambda>w. b_total (aw_buckets w)) ws) + outstanding i))"
      by (rule cg_add [OF cg_refl Cons])
    with False show ?thesis by (simp add: add.assoc)
  qed
qed

lemma aging_as_of: "ag_as_of (foldl (aging_step ref) x is) = ag_as_of x"
  by (induction "is" arbitrary: x) (simp_all add: aging_step_def Let_def)

lemma aging_fold:
  "distinct (List.map aw_client (ag_rows ag)) \<Longrightarrow> buckets_ok (ag_totals ag) \<Longrightarrow>
   cg (sum_list (List.map (\<lambda>w. b_total (aw_buckets w)) (ag_rows ag))) (b_total (ag_totals ag)) \<Longrightarrow>
   distinct (List.map aw_client (ag_rows (foldl (aging_step ref) ag is))) \<and> buckets_ok (ag_totals (foldl (aging_step ref) ag is)) \<and>
   cg (sum_list (List.map (\<lambda>w. b_total (aw_buckets w)) (ag_rows (foldl (aging_step ref) ag is)))) (b_total (ag_totals (foldl (aging_step ref) ag is))) \<and>
   b_total (ag_totals (foldl (aging_step ref) ag is)) =
     foldl add64 (b_total (ag_totals ag)) (filter (\<lambda>m. m \<noteq> 0) (List.map outstanding is))"
proof (induction "is" arbitrary: ag)
  case (Cons i "is")
  have "distinct (List.map aw_client (ag_rows (aging_step ref ag i))) \<and> buckets_ok (ag_totals (aging_step ref ag i)) \<and>
    cg (sum_list (List.map (\<lambda>w. b_total (aw_buckets w)) (ag_rows (aging_step ref ag i)))) (b_total (ag_totals (aging_step ref ag i)))"
  proof (cases "outstanding i = 0")
    case False
    have "cg (sum_list (List.map (\<lambda>w. b_total (aw_buckets w)) (ag_rows ag)) + outstanding i) (b_total (ag_totals ag) + outstanding i)"
      by (rule cg_add [OF Cons.prems(3) cg_refl])
    from cg_trans [OF add_to_rows_total this] cg_sym [OF cg_ops(1)]
    have "cg (sum_list (List.map (\<lambda>w. b_total (aw_buckets w)) (add_to_rows (ag_rows ag) i d))) (add64 (b_total (ag_totals ag)) (outstanding i))" for d
      by (blast intro: cg_trans)
    with False Cons.prems add_to_rows_distinct bucket_add_ok show ?thesis by (simp add: aging_step_def Let_def)
  qed (use Cons.prems in \<open>simp add: aging_step_def\<close>)
  moreover have "b_total (ag_totals (aging_step ref ag i)) =
      (if outstanding i = 0 then b_total (ag_totals ag) else add64 (b_total (ag_totals ag)) (outstanding i))"
    by (simp add: aging_step_def Let_def)
  ultimately show ?case using Cons.IH [of "aging_step ref ag i"] by (cases "outstanding i = 0") auto
qed simp

section \<open>Properties\<close>

text \<open>C10: The trial balance of books in order balances for every window, even where a sum wraps around.\<close>

theorem trial_balance_balances:
  assumes ok: "books_ok db" and run: "trial_balance_of db from to = Inr tb"
  shows "tb_balanced tb \<and> tb_debit tb = tb_credit tb"
proof -
  obtain as where as: "balances db (bound_from from) (bound_to to) = Inr as"
    using run by (auto simp: trial_balance_of_def Let_def split: sum.splits)
  define t0 where "t0 = \<lparr>tb_from = bound_from from, tb_to = bound_to to, tb_rows = [], tb_debit = 0, tb_credit = 0, tb_balanced = False\<rparr>"
  define t where "t = foldl tb_step t0 as"
  have "cg (tb_debit t - tb_credit t) (sum_list (List.map net_account as))" "in64 (tb_debit t)" "in64 (tb_credit t)"
    using tb_fold_net [of t0 as] by (simp_all add: t_def t0_def)
  moreover have "cg (sum_list (List.map net_account as)) 0" by (rule balances_net(1) [OF ok as])
  ultimately have "cg (tb_debit t - tb_credit t) 0" using cg_trans by blast
  then have "cg (tb_debit t) (tb_credit t)" by (simp add: cg_def)
  then have "tb_debit t = tb_credit t" by (rule cg_eq) fact+
  moreover have "tb = t\<lparr>tb_balanced := (tb_debit t = tb_credit t)\<rparr>"
    using run as by (simp add: trial_balance_of_def Let_def t_def t0_def)
  ultimately show ?thesis by simp
qed

lemma demo_window:
  "window_lines demo_posted date_floor date_ceiling = line_rows 1 1 0 (List.map posting_line demo_postings)"
  "window_lines demo_posted date_floor ''2024-05-01'' = line_rows 1 1 0 (List.map posting_line demo_postings)"
  by (simp_all add: window_lines_def demo_posted_def demo_defs in_window_def date_floor_def date_ceiling_def
      demo_entry_def blank_entry_def stamped_def less_char_def less_eq_char_def)

lemma demo_sums: "sql_sum [] = Inr 0" "sql_sum [0] = Inr 0" "sql_sum [500] = Inr 500"
  by (simp_all add: sql_sum_def in64_def)

lemma map_res_ok: "(\<And>x. x \<in> set xs \<Longrightarrow> res_ok (f x)) \<Longrightarrow> res_ok (map_res f xs)"
proof (induction xs)
  case (Cons x xs)
  then show ?case by (cases "f x"; cases "map_res f xs") fastforce+
qed simp

lemma demo_balances:
  "res_ok (balances demo_posted date_floor date_ceiling)" "res_ok (balances demo_posted date_floor ''2024-05-01'')"
proof -
  have "res_ok (balance_row demo_posted f t a)" if "window_lines demo_posted f t = line_rows 1 1 0 (List.map posting_line demo_postings)" for f t a
    using that by (simp add: balance_row_def Let_def demo_postings_def posting_line_def debit_def credit_def demo_sums)
  then show "res_ok (balances demo_posted date_floor date_ceiling)" "res_ok (balances demo_posted date_floor ''2024-05-01'')"
    unfolding balances_def using demo_window by (blast intro: map_res_ok)+
qed

lemma trial_balance_balances_witness:
  "\<exists>tb. trial_balance_of demo_posted '''' '''' = Inr tb \<and> tb_balanced tb"
proof -
  obtain tb where "trial_balance_of demo_posted '''' '''' = Inr tb"
    using demo_balances(1) by (cases "balances demo_posted date_floor date_ceiling")
      (simp_all add: trial_balance_of_def bound_from_def bound_to_def Let_def)
  with trial_balance_balances [OF demo_posted_ok this] show ?thesis by blast
qed

text \<open>C20: The balance sheet of books in order balances at every date: assets are liabilities, equity and the
  earnings not yet closed.\<close>

theorem balance_sheet_balances:
  assumes ok: "books_ok db" and run: "balance_sheet_of ck db as_of = Inr bs"
  shows "bs_balanced bs \<and> bs_total_assets bs = add64 (add64 (bs_total_liabilities bs) (bs_total_equity bs)) (bs_earnings bs)"
proof -
  obtain d as where as: "balances db date_floor d = Inr as" "bs = close_sheet (foldl bs_step (empty_sheet d) as)"
    using run by (auto simp: balance_sheet_of_def Let_def split: sum.splits option.splits)
  define b where "b = foldl bs_step (empty_sheet d) as"
  have "cg (sheet_gap b) (sum_list (List.map net_account as))"
    using bs_fold_net [OF balances_net(2) [OF ok as(1)], of "empty_sheet d"] by (simp add: b_def sheet_gap_def empty_sheet_def)
  then have gap: "cg (sheet_gap b) 0" using balances_net(1) [OF ok as(1)] cg_trans by blast
  let ?rhs = "add64 (add64 (bs_total_liabilities b) (bs_total_equity b)) (sub64 (bs_income b) (bs_expense b))"
  have "cg ?rhs (bs_total_liabilities b + bs_total_equity b + (bs_income b - bs_expense b))"
    by (rule cg_trans [OF cg_ops(1)]) (rule cg_add [OF cg_ops(1) cg_ops(2)])
  from cg_sym [OF this] have "cg (bs_total_assets b) ?rhs"
    using cg_trans [of "bs_total_assets b" "bs_total_liabilities b + bs_total_equity b + (bs_income b - bs_expense b)" ?rhs] gap
    by (simp add: cg_def sheet_gap_def algebra_simps)
  moreover have "in64 (bs_total_assets (bs_step x a))" if "in64 (bs_total_assets x)" for x a
    using that by (simp add: bs_step_def Let_def add64_def)
  then have "in64 (bs_total_assets (foldl bs_step x xs))" if "in64 (bs_total_assets x)" for x xs
    using that by (induction xs arbitrary: x) simp_all
  then have "in64 (bs_total_assets b)" by (simp add: b_def empty_sheet_def)
  moreover have "in64 ?rhs" by (simp add: add64_def)
  ultimately have "bs_total_assets b = ?rhs" by (rule cg_eq)
  then show ?thesis by (simp add: as(2) b_def [symmetric] close_sheet_def Let_def)
qed

lemma balance_sheet_balances_witness:
  "\<exists>bs. balance_sheet_of demo_clock demo_posted ''2024-05-01'' = Inr bs \<and> bs_balanced bs"
proof -
  obtain bs where "balance_sheet_of demo_clock demo_posted ''2024-05-01'' = Inr bs"
    using demo_balances(2) demo_date by (cases "balances demo_posted date_floor ''2024-05-01''")
      (simp_all add: balance_sheet_of_def Let_def)
  with balance_sheet_balances [OF demo_posted_ok this] show ?thesis by blast
qed


definition demo_credited :: acct_db where
  "demo_credited = demo_books\<lparr>invoices :=
     \<lparr>rows = [demo_invoice 1 kind_invoice ''INV-0001'' 1000, demo_invoice 2 kind_credit_note ''CN-0001'' 400], next_id = 3\<rparr>\<rparr>"


end
