(* ===== verification/Books.thy ===== *)
theory Books
  imports Reports
begin

text \<open>
  The books as a transition system: one step for each writing operation of \<open>internal/accounting\<close>, in any order
  and with any arguments, successful or refused. Every step is a writer of books and documents, so what the contract
  promises of one run holds of every history.
\<close>

section \<open>Steps and histories\<close>

inductive acct_step :: "acct_db \<Rightarrow> acct_db \<Rightarrow> bool" where
  create_account_step: "acct_step db (snd (create_account ck a db))"
| update_account_step: "acct_step db (snd (update_account i a db))"
| archive_account_step: "acct_step db (snd (archive_account i flag db))"
| lock_period_step: "acct_step db (snd (lock_period ck p db))"
| save_vat_rate_step: "acct_step db (snd (save_vat_rate v db))"
| save_settings_step: "acct_step db (snd (save_settings ck s db))"
| post_step: "acct_step db (snd (post ck e db))"
| reverse_entry_step: "acct_step db (snd (reverse_entry ck i date memo db))"
| create_draft_step: "acct_step db (snd (create_draft ck iv db))"
| update_draft_step: "acct_step db (snd (update_draft ck k iv db))"
| delete_draft_step: "acct_step db (snd (delete_draft k db))"
| issue_step: "acct_step db (snd (issue ck k db))"
| void_step: "acct_step db (snd (void ck k why db))"
| credit_note_step: "acct_step db (snd (credit_note ck k ls why db))"
| record_payment_step: "acct_step db (snd (record_payment ck y db))"
| delete_payment_step: "acct_step db (snd (delete_payment ck k db))"
| record_expense_step: "acct_step db (snd (record_expense ck x db))"
| delete_expense_step: "acct_step db (snd (delete_expense ck k db))"
| record_funding_step: "acct_step db (snd (record_funding ck f db))"
| delete_funding_step: "acct_step db (snd (delete_funding ck k db))"

text \<open>A database as the migrations leave it: accounts and sequences seeded, nothing posted or issued.\<close>

definition opened :: "acct_db \<Rightarrow> bool" where
  "opened db \<longleftrightarrow>
     keyed a_id (accounts db) \<and> (\<forall>a \<in> set (rows (accounts db)). account_type_valid (a_type a)) \<and>
     entries db = \<lparr>rows = [], next_id = 1\<rparr> \<and> jlines db = \<lparr>rows = [], next_id = 1\<rparr> \<and>
     invoices db = \<lparr>rows = [], next_id = 1\<rparr> \<and> invoice_lines db = \<lparr>rows = [], next_id = 1\<rparr> \<and>
     (\<forall>q \<in> set (sequences db). q_next q = 1)"

definition history :: "acct_db \<Rightarrow> acct_db \<Rightarrow> bool" where
  "history = acct_step\<^sup>*\<^sup>*"

definition acct_reachable :: "acct_db \<Rightarrow> bool" where
  "acct_reachable db \<longleftrightarrow> (\<exists>db0. opened db0 \<and> history db0 db)"

lemma opened_ok: "opened db \<Longrightarrow> books_ok db \<and> docs_ok db"
  by (auto simp: opened_def books_ok_def docs_ok_def keyed_def numbering_ok_def issued_numbers_def dest: first_row_Some)

lemma writer_lawful:
  assumes "documents_writer run"
  shows "lawful db (snd (run db))"
  using books_writer.keeps_books [OF documents_writer.axioms(1) [OF assms]] books_writer.only_grows [OF documents_writer.axioms(1) [OF assms]]
    documents_writer.keeps_docs [OF assms] documents_writer.keeps_issued [OF assms]
  by (simp add: lawful_def)

lemmas writers =
  create_account_d.documents_writer_axioms update_account_d.documents_writer_axioms archive_account_d.documents_writer_axioms
  lock_period_d.documents_writer_axioms save_vat_rate_d.documents_writer_axioms save_settings_d.documents_writer_axioms
  post_d.documents_writer_axioms reverse_d.documents_writer_axioms create_draft_d.documents_writer_axioms
  update_draft_d.documents_writer_axioms delete_draft_d.documents_writer_axioms credit_note_d.documents_writer_axioms
  issue_d.documents_writer_axioms void_d.documents_writer_axioms record_payment_d.documents_writer_axioms
  delete_payment_d.documents_writer_axioms record_expense_d.documents_writer_axioms delete_expense_d.documents_writer_axioms
  record_funding_d.documents_writer_axioms delete_funding_d.documents_writer_axioms

lemma step_lawful: "acct_step db db' \<Longrightarrow> lawful db db'"
  by (induction rule: acct_step.induct) (rule writer_lawful, rule writers)+

lemma history_ok:
  assumes "history db db'" "books_ok db" "docs_ok db"
  shows "books_ok db' \<and> docs_ok db'"
  using assms(1) unfolding history_def
proof (induction rule: rtranclp_induct)
  case (step y z)
  with step_lawful [OF step(2)] show ?case by (simp add: lawful_def)
qed (use assms in simp)

lemma reachable_ok: "acct_reachable db \<Longrightarrow> books_ok db \<and> docs_ok db"
  unfolding acct_reachable_def using history_ok opened_ok by blast

lemma history_documents:
  assumes "history db db'" "books_ok db" "docs_ok db"
  shows "documents_kept db db'"
  using assms(1) unfolding history_def
proof (induction rule: rtranclp_induct)
  case (step y z)
  have "docs_ok y" using history_ok [of db y] step(1) assms by (simp add: history_def)
  then have "documents_kept y z" using step_lawful [OF step(2)] by (simp add: lawful_def)
  with step show ?case by (blast intro: documents_kept_trans)
qed (simp add: documents_kept_def, blast)

lemma journal_extends_rows:
  assumes "journal_extends y z" "books_ok z"
  shows "\<exists>es. rows (entries z) = rows (entries y) @ es" "\<And>e. e \<in> set (rows (entries y)) \<Longrightarrow> entry_rows z (e_id e) = entry_rows y (e_id e)"
proof -
  obtain es ls where w: "rows (entries z) = rows (entries y) @ es" "rows (jlines z) = rows (jlines y) @ ls" "\<forall>l \<in> set ls. l_entry l \<in> e_id ` set es"
    using assms(1) by (auto simp: journal_extends_def)
  then show "\<exists>es. rows (entries z) = rows (entries y) @ es" by blast
  fix e assume "e \<in> set (rows (entries y))"
  moreover have "distinct (List.map e_id (rows (entries y) @ es))" using assms(2) w(1) by (simp add: books_ok_def keyed_def)
  ultimately have "e_id e \<notin> e_id ` set es" by auto
  with w(3) have "l_entry l \<noteq> e_id e" if "l \<in> set ls" for l using that by metis
  then have "filter (\<lambda>l. l_entry l = e_id e) ls = []" by (auto simp: filter_empty_conv)
  with w(2) show "entry_rows z (e_id e) = entry_rows y (e_id e)" by (simp add: entry_rows_def)
qed

lemma history_journal:
  assumes "history db db'" "books_ok db" "docs_ok db"
  shows "(\<exists>es. rows (entries db') = rows (entries db) @ es) \<and> (\<forall>e \<in> set (rows (entries db)). entry_rows db' (e_id e) = entry_rows db (e_id e))"
  using assms(1) unfolding history_def
proof (induction rule: rtranclp_induct)
  case (step y z)
  have "books_ok y" using history_ok [of db y] step(1) assms by (simp add: history_def)
  then have "journal_extends y z" "books_ok z" using step_lawful [OF step(2)] by (simp_all add: lawful_def)
  note j = journal_extends_rows [OF this]
  obtain es where es: "rows (entries y) = rows (entries db) @ es" using step(3) by blast
  then show ?case using j(1) j(2) step(3) by auto
qed simp

lemma number_of_inj:
  assumes "number_of q m = number_of q n" "0 \<le> m" "0 \<le> n"
  shows "m = n"
proof -
  have "pad_left (nat (q_padding q)) (nat_str (nat m)) = pad_left (nat (q_padding q)) (nat_str (nat n))"
    using assms by (simp add: number_of_def fmt_padded_def)
  then have "nat m = nat n" by (metis option.inject parse_nat_padded)
  with assms show ?thesis by simp
qed

section \<open>What every history keeps\<close>

text \<open>C16: In every state the operations can reach, each journal entry balances and each line has one positive side
  and names an account and an entry that exist.\<close>

theorem reachable_entries_balanced:
  assumes "acct_reachable db" "e \<in> set (rows (entries db))" "l \<in> set (rows (jlines db))"
  shows "lines_balanced (entry_rows db (e_id e)) \<and> line_ok l \<and> account_exists db (l_account l) \<and>
    l_entry l \<in> e_id ` set (rows (entries db))"
  using reachable_ok [OF assms(1)] assms(2,3) by (force simp: books_ok_def)

text \<open>C1: The documents of a series that have been issued carry, each once, exactly the numbers from 1 up to the
  last one given out: no gap, no duplicate.\<close>

theorem issued_numbers_gap_free:
  assumes "acct_reachable db" "first_row (\<lambda>q. q_name q = s) (sequences db) = Some q"
  shows "distinct (issued_numbers db s) \<and> set (issued_numbers db s) = number_of q ` {1..q_next q - 1} \<and>
    int (length (issued_numbers db s)) = q_next q - 1"
proof -
  have "numbering_ok db s" using reachable_ok [OF assms(1)] by (simp add: docs_ok_def)
  then have n: "1 \<le> q_next q" and m: "mset (issued_numbers db s) = mset (List.map (number_of q) [1..q_next q - 1])"
    using assms(2) by (simp_all add: numbering_ok_def)
  have "distinct (List.map (number_of q) [1..q_next q - 1])" by (auto simp: distinct_map inj_on_def dest: number_of_inj)
  then have "distinct (issued_numbers db s)" using m mset_eq_imp_distinct_iff by blast
  moreover have "set (issued_numbers db s) = number_of q ` {1..q_next q - 1}" using mset_eq_setD [OF m] by simp
  moreover have "length (issued_numbers db s) = nat (q_next q - 1)" using mset_eq_length [OF m] by simp
  ultimately show ?thesis using n by simp
qed

text \<open>C8: Once a document has left the draft state, nothing that happens later changes it or its lines, except its
  status and paid amount, and it never becomes a draft again or disappears.\<close>

theorem issued_documents_immutable:
  assumes "acct_reachable db" "history db db'" "r \<in> set (rows (invoices db))" "i_status r \<noteq> st_draft"
  shows "\<exists>r' \<in> set (rows (invoices db')). r' = r\<lparr>i_status := i_status r', i_paid := i_paid r'\<rparr> \<and> i_status r' \<noteq> st_draft \<and>
    invoice_lines_of db' (i_id r) = invoice_lines_of db (i_id r)"
proof -
  have "documents_kept db db'" using history_documents [OF assms(2)] reachable_ok [OF assms(1)] by simp
  then obtain r' where r': "r' \<in> set (rows (invoices db'))" "frozen r' = frozen r" "i_status r' \<noteq> st_draft"
    "invoice_lines_of db' (i_id r) = invoice_lines_of db (i_id r)"
    using assms(3,4) by (auto simp: documents_kept_def)
  have "r' = r\<lparr>i_status := i_status r', i_paid := i_paid r'\<rparr>" using r'(2) by (cases r; cases r') (simp add: frozen_def)
  with r' show ?thesis by blast
qed

text \<open>C2: The journal is append-only: later operations put entries behind the earlier ones and change neither an
  entry nor its lines, and none of them touches the entries of a locked period.\<close>

theorem journal_append_only:
  assumes "acct_reachable db" "history db db'" "acct_step db' db''" "p \<in> set (rows (periods db'))"
  shows "(\<exists>es. rows (entries db') = rows (entries db) @ es) \<and>
    (\<forall>e \<in> set (rows (entries db)). entry_rows db' (e_id e) = entry_rows db (e_id e)) \<and>
    filter (\<lambda>e. covers (e_date e) p) (rows (entries db'')) = filter (\<lambda>e. covers (e_date e) p) (rows (entries db'))"
proof -
  have ok: "books_ok db \<and> docs_ok db" by (rule reachable_ok [OF assms(1)])
  have "books_ok db'" using history_ok [OF assms(2)] ok by simp
  then have "journal_extends db' db''" using step_lawful [OF assms(3)] by (simp add: lawful_def)
  then obtain es where es: "rows (entries db'') = rows (entries db') @ es" "\<forall>e \<in> set es. lock_covering db' (e_date e) = None"
    by (auto simp: journal_extends_def)
  then have "filter (\<lambda>e. covers (e_date e) p) es = []" using assms(4) by (auto simp: filter_empty_conv lock_covering_None)
  then show ?thesis using history_journal [OF assms(2)] ok es(1) by simp
qed

section \<open>A short history\<close>

definition demo_issued :: acct_db where
  "demo_issued = snd (issue demo_clock 1 (snd (create_draft demo_clock (demo_draft\<lparr>i_paid := 0, i_entry := 0\<rparr>) demo_books)))"

lemma demo_issued_reachable: "acct_reachable demo_issued"
proof -
  have "opened demo_books" by (simp add: opened_def keyed_def demo_books_def demo_account_def account_type_valid_def)
  moreover have "history demo_books demo_issued"
    unfolding history_def demo_issued_def by (meson create_draft_step issue_step r_into_rtranclp rtranclp.rtrancl_into_rtrancl)
  ultimately show ?thesis by (auto simp: acct_reachable_def)
qed

lemma reachable_entries_balanced_witness:
  "\<exists>e \<in> set (rows (entries demo_issued)). lines_balanced (entry_rows demo_issued (e_id e)) \<and> entry_rows demo_issued (e_id e) \<noteq> []"
proof -
  have "let db = demo_issued in list_all (\<lambda>e. entry_rows db (e_id e) \<noteq> []) (rows (entries db)) \<and> rows (entries db) \<noteq> [] \<and> rows (jlines db) \<noteq> []"
    by code_simp
  then have ev: "list_all (\<lambda>e. entry_rows demo_issued (e_id e) \<noteq> []) (rows (entries demo_issued))" "rows (entries demo_issued) \<noteq> []"
      "rows (jlines demo_issued) \<noteq> []"
    by (simp_all add: Let_def)
  obtain e where e: "e \<in> set (rows (entries demo_issued))" using ev(2) by (meson last_in_set)
  obtain l where l: "l \<in> set (rows (jlines demo_issued))" using ev(3) by (meson last_in_set)
  have "entry_rows demo_issued (e_id e) \<noteq> []" using ev(1) e by (simp add: list_all_iff)
  with reachable_entries_balanced [OF demo_issued_reachable e l] e show ?thesis by blast
qed

lemma issued_numbers_gap_free_witness: "set (issued_numbers demo_issued ''invoice'') = {''INV-0001''}"
proof -
  let ?q = "\<lparr>q_name = ''invoice'', q_prefix = ''INV-'', q_next = 2, q_padding = 4\<rparr>"
  have "first_row (\<lambda>q. q_name q = ''invoice'') (sequences demo_issued) = Some ?q" by code_simp
  from issued_numbers_gap_free [OF demo_issued_reachable this]
  have "set (issued_numbers demo_issued ''invoice'') = number_of ?q ` {1..1}" by simp
  moreover have "number_of ?q 1 = ''INV-0001''" by code_simp
  ultimately show ?thesis by simp
qed

lemma void_history: "history demo_issued (snd (void demo_clock 1 ''typo'' demo_issued))"
  unfolding history_def by (rule r_into_rtranclp) (rule void_step)

lemma issued_documents_immutable_witness:
  "\<exists>r' \<in> set (rows (invoices (snd (void demo_clock 1 ''typo'' demo_issued)))). i_number r' = ''INV-0001'' \<and> i_total r' = 1210"
proof -
  have "list_ex (\<lambda>r. i_number r = ''INV-0001'' \<and> i_total r = 1210 \<and> i_status r \<noteq> st_draft) (rows (invoices demo_issued))" by code_simp
  then obtain r where r: "r \<in> set (rows (invoices demo_issued))" "i_number r = ''INV-0001''" "i_total r = 1210" "i_status r \<noteq> st_draft"
    by (auto simp: list_ex_iff)
  obtain r' st pd where r': "r' \<in> set (rows (invoices (snd (void demo_clock 1 ''typo'' demo_issued))))" "r' = r\<lparr>i_status := st, i_paid := pd\<rparr>"
    using issued_documents_immutable [OF demo_issued_reachable void_history r(1,4)] by blast
  have "i_number r' = ''INV-0001'' \<and> i_total r' = 1210" using r by (simp add: r'(2))
  with r'(1) show ?thesis by blast
qed

lemma journal_append_only_witness:
  "\<exists>es. rows (entries (snd (void demo_clock 1 ''typo'' demo_issued))) = rows (entries demo_issued) @ es"
proof -
  have "list_ex (\<lambda>_. True) (rows (periods (snd (void demo_clock 1 ''typo'' demo_issued))))" by code_simp
  then obtain p where "p \<in> set (rows (periods (snd (void demo_clock 1 ''typo'' demo_issued))))" by (auto simp: list_ex_iff)
  from journal_append_only [OF demo_issued_reachable void_history issue_step [of _ demo_clock 1] this] show ?thesis by blast
qed

end
