(* ===== verification/TurnApi.thy ===== *)
theory TurnApi
  imports AgentLoop
begin

text \<open>
  The turn endpoints of the HTTP interface: \<open>internal/api/turn.go\<close>, and \<open>session\<close> of \<open>server.go\<close>.
  A request arrives decoded, \<open>None\<close> when the body did not decode; a reply is the turn, the progress, or a status
  code with the reason. JSON validity is a parameter. A message begins a turn; the results of the client's own tools
  are put on record, each with the decision the client reports, and continue it.
\<close>

section \<open>Requests and replies\<close>

record client_tool =
  ct_name :: string
  ct_description :: string
  ct_parameters :: string
  ct_risk :: string
  ct_side :: string

record post_message =
  pm_text :: string
  pm_tools :: "client_tool list"

record tool_result_input =
  ri_call :: string
  ri_tool :: string
  ri_input :: string
  ri_content :: string
  ri_is_error :: bool
  ri_decision :: string
  ri_risk :: string

record tool_results =
  rq_results :: "tool_result_input list"
  rq_tools :: "client_tool list"

datatype api_fault =
    SessionNotFound
  | BadBody
  | TextRequired
  | TooManyTools
  | BadToolName string
  | DuplicateToolName string
  | BadToolRisk string string
  | BadToolParameters string
  | NoResults
  | NoCallId
  | NoDecision
  | UnknownDecision string
  | TurnFailed agent_error
  | InternalError string

datatype api_reply = ReplyTurn turn | ReplyProgress turn_progress | ReplyError nat api_fault

section \<open>Validation\<close>

definition risk_of :: "string \<Rightarrow> risk" where
  "risk_of s = (if s = ''read'' then RiskRead else if s = ''write'' then RiskWrite
     else if s = ''destructive'' then RiskDestructive else RiskOther s)"

definition tool_name_char :: "char \<Rightarrow> bool" where
  "tool_name_char c = (let n = (of_char c :: nat) in
     (97 \<le> n \<and> n \<le> 122) \<or> (65 \<le> n \<and> n \<le> 90) \<or> (48 \<le> n \<and> n \<le> 57) \<or> n = 95 \<or> n = 45)"

text \<open>The pattern \<open>^[a-zA-Z0-9_-]{1,64}$\<close>.\<close>

definition tool_name_ok :: "string \<Rightarrow> bool" where
  "tool_name_ok s = (1 \<le> length s \<and> length s \<le> 64 \<and> list_all tool_name_char s)"

definition max_client_tools :: nat where "max_client_tools = 64"

fun check_client_tools :: "(string \<Rightarrow> bool) \<Rightarrow> string list \<Rightarrow> client_tool list \<Rightarrow> api_fault + tool_def list" where
  "check_client_tools valid_json seen [] = Inr []"
| "check_client_tools valid_json seen (t # ts) =
     (if \<not> tool_name_ok (ct_name t) then Inl (BadToolName (ct_name t))
      else if ct_name t \<in> set seen then Inl (DuplicateToolName (ct_name t))
      else if \<not> risk_valid (risk_of (ct_risk t)) then Inl (BadToolRisk (ct_name t) (ct_risk t))
      else if ct_parameters t \<noteq> '''' \<and> \<not> valid_json (ct_parameters t) then Inl (BadToolParameters (ct_name t))
      else case check_client_tools valid_json (ct_name t # seen) ts of
        Inl e \<Rightarrow> Inl e
      | Inr ds \<Rightarrow> Inr (\<lparr>td_name = ct_name t, td_description = ct_description t, td_parameters = ct_parameters t,
                        td_risk = risk_of (ct_risk t), td_side = SideClient\<rparr> # ds))"

definition validate_client_tools :: "(string \<Rightarrow> bool) \<Rightarrow> client_tool list \<Rightarrow> api_fault + tool_def list" where
  "validate_client_tools valid_json ts =
     (if max_client_tools < length ts then Inl TooManyTools else check_client_tools valid_json [] ts)"

definition decisions :: "string list" where
  "decisions = [''auto'', ''approved'', ''denied'', ''blocked'']"

definition validate_decision :: "string \<Rightarrow> api_fault + string" where
  "validate_decision d =
     (if d \<in> set decisions then Inr d else if d = '''' then Inl NoDecision else Inl (UnknownDecision d))"

section \<open>The endpoints\<close>

definition write_turn :: "agent_error + turn \<Rightarrow> api_reply" where
  "write_turn r =
     (case r of
        Inl (AgRepeated key n) \<Rightarrow> ReplyError 422 (TurnFailed (AgRepeated key n))
      | Inl (AgTooManyIterations msg) \<Rightarrow> ReplyError 422 (TurnFailed (AgTooManyIterations msg))
      | Inl _ \<Rightarrow> ReplyError 500 (InternalError ''advance turn'')
      | Inr t \<Rightarrow> ReplyTurn t)"

definition find_session :: "nat \<Rightarrow> string \<Rightarrow> 'x world \<Rightarrow> api_reply + session" where
  "find_session client sid w =
     (case session_lookup sid client (wl_db w) of
        Inl NotFound \<Rightarrow> Inl (ReplyError 404 SessionNotFound)
      | Inl _ \<Rightarrow> Inl (ReplyError 500 (InternalError ''lookup session''))
      | Inr s \<Rightarrow> Inr s)"

definition store_title :: "('x, 'a) services_scheme \<Rightarrow> session \<Rightarrow> string \<Rightarrow> 'x world \<Rightarrow> 'x world" where
  "store_title sv sess text w =
     (if ss_title sess \<noteq> '''' then w
      else let (now, w1) = read_clock sv w in w1\<lparr>wl_db := set_title now (ss_id sess) (title text) (wl_db w1)\<rparr>)"

definition handle_post_message ::
  "'x agent \<Rightarrow> (string \<Rightarrow> bool) \<Rightarrow> nat \<Rightarrow> string \<Rightarrow> post_message option \<Rightarrow> 'x world \<Rightarrow> api_reply \<times> 'x world" where
  "handle_post_message ag valid_json client sid req w =
     (case find_session client sid w of Inl e \<Rightarrow> (e, w) | Inr sess \<Rightarrow>
      case req of None \<Rightarrow> (ReplyError 400 BadBody, w) | Some r \<Rightarrow>
      if trim_space (pm_text r) = '''' then (ReplyError 400 TextRequired, w) else
      case validate_client_tools valid_json (pm_tools r) of Inl f \<Rightarrow> (ReplyError 400 f, w) | Inr tools \<Rightarrow>
      let (out, w') = advance ag sess tools [user_message (pm_text r)] (store_title ag sess (pm_text r) w)
      in (write_turn out, w'))"

definition result_entry :: "session \<Rightarrow> tool_result_input \<Rightarrow> audit_entry" where
  "result_entry sess r =
     \<lparr>au_id = 0, au_session = ss_id sess, au_call_id = ri_call r, au_tool = ri_tool r, au_side = SideClient,
      au_risk = risk_of (ri_risk r), au_input = ri_input r, au_decision = ri_decision r, au_outcome = ri_content r,
      au_is_error = ri_is_error r, au_created = 0\<rparr>"

definition result_message :: "tool_result_input \<Rightarrow> message" where
  "result_message r =
     tool_message \<lparr>tr_call_id = ri_call r, tr_content = ri_content r, tr_is_error = ri_is_error r\<rparr>"

text \<open>Each result is put on record before the next is looked at, so a bad one leaves the earlier ones recorded.\<close>

fun record_results ::
  "'x agent \<Rightarrow> session \<Rightarrow> tool_result_input list \<Rightarrow> 'x world \<Rightarrow> (api_reply + message list) \<times> 'x world" where
  "record_results ag sess [] w = (Inr [], w)"
| "record_results ag sess (r # rs) w =
     (if ri_call r = '''' then (Inl (ReplyError 400 NoCallId), w) else
      case validate_decision (ri_decision r) of Inl f \<Rightarrow> (Inl (ReplyError 400 f), w) | Inr _ \<Rightarrow>
      let (now, w1) = read_clock ag w in
      case record_tool now (result_entry sess r) (wl_db w1) of
        (Inl _, _) \<Rightarrow> (Inl (ReplyError 500 (InternalError ''record audit'')), w1)
      | (Inr _, db) \<Rightarrow>
          (case record_results ag sess rs (w1\<lparr>wl_db := db\<rparr>) of
             (Inl e, w2) \<Rightarrow> (Inl e, w2)
           | (Inr ms, w2) \<Rightarrow> (Inr (result_message r # ms), w2)))"

definition handle_tool_results ::
  "'x agent \<Rightarrow> (string \<Rightarrow> bool) \<Rightarrow> nat \<Rightarrow> string \<Rightarrow> tool_results option \<Rightarrow> 'x world \<Rightarrow> api_reply \<times> 'x world" where
  "handle_tool_results ag valid_json client sid req w =
     (case find_session client sid w of Inl e \<Rightarrow> (e, w) | Inr sess \<Rightarrow>
      case req of None \<Rightarrow> (ReplyError 400 BadBody, w) | Some r \<Rightarrow>
      if rq_results r = [] then (ReplyError 400 NoResults, w) else
      case validate_client_tools valid_json (rq_tools r) of Inl f \<Rightarrow> (ReplyError 400 f, w) | Inr tools \<Rightarrow>
      case record_results ag sess (rq_results r) w of
        (Inl e, w1) \<Rightarrow> (e, w1)
      | (Inr ms, w1) \<Rightarrow> (let (out, w') = advance ag sess tools ms w1 in (write_turn out, w')))"

definition handle_turn_progress :: "'x agent \<Rightarrow> nat \<Rightarrow> string \<Rightarrow> 'x world \<Rightarrow> api_reply" where
  "handle_turn_progress ag client sid w =
     (case find_session client sid w of Inl e \<Rightarrow> e | Inr sess \<Rightarrow>
      if \<not> ss_record sess
      then ReplyProgress \<lparr>tp_count = ephemeral_len sid w, tp_steps = 0, tp_last_role = None, tp_tools = []\<rparr>
      else ReplyProgress (turn_progress_of (sv_codec ag) sid (wl_db w)))"

section \<open>What the endpoints leave behind\<close>

lemma find_session_Inr: "find_session client sid w = Inr sess \<Longrightarrow> session_lookup sid client (wl_db w) = Inr sess"
  by (auto simp: find_session_def split: sum.splits store_error.splits)

lemma session_lookup_row:
  "session_lookup sid client db = Inr sess \<Longrightarrow> sess \<in> set (db_sessions db) \<and> ss_id sess = sid \<and> ss_client sess = client"
  by (auto simp: session_lookup_def owned_def split: option.splits dest: first_row_Some)

lemma check_client_tools_ok:
  "check_client_tools vj seen ts = Inr ds \<Longrightarrow>
     List.map td_name ds = List.map ct_name ts \<and> distinct (List.map ct_name ts) \<and> set seen \<inter> ct_name ` set ts = {} \<and>
     (\<forall>d \<in> set ds. tool_name_ok (td_name d) \<and> risk_valid (td_risk d) \<and> td_side d = SideClient)"
proof (induction ts arbitrary: seen ds)
  case (Cons t ts)
  then obtain ds' where w: "check_client_tools vj (ct_name t # seen) ts = Inr ds'" "tool_name_ok (ct_name t)" "ct_name t \<notin> set seen"
    "risk_valid (risk_of (ct_risk t))"
    "ds = \<lparr>td_name = ct_name t, td_description = ct_description t, td_parameters = ct_parameters t, td_risk = risk_of (ct_risk t), td_side = SideClient\<rparr> # ds'"
    by (auto split: if_splits sum.splits)
  have "ct_name t \<notin> ct_name ` set ts" "set seen \<inter> ct_name ` set ts = {}" using Cons.IH [OF w(1)] by auto
  with Cons.IH [OF w(1)] w(2-5) show ?case by simp
qed simp

interpretation audit_grows: turn_invariant ag tr sess "\<lambda>w. \<exists>more. db_audit (wl_db w) = A @ more" for ag tr sess A
proof (unfold_locales, goal_cases)
  case (1 w ms r w')
  then show ?case using transcript_append_audit by metis
next
  case (2 w rd w')
  then show ?case using transcript_messages_state(1) by metis
qed (auto simp: record_tool_def Let_def)

lemma store_title_world:
  "wl_pool (store_title sv sess text w) = wl_pool w"
  "db_messages (wl_db (store_title sv sess text w)) = db_messages (wl_db w)"
  by (auto simp: store_title_def read_clock_def set_title_def update_sessions_def split: prod.splits)

lemma store_title_row:
  assumes "sess \<in> set (db_sessions (wl_db w))" "ss_title sess = ''''"
  shows "\<exists>s \<in> set (db_sessions (wl_db (store_title sv sess text w))). ss_id s = ss_id sess \<and> ss_title s = title text"
proof -
  obtain now w1 where c: "read_clock sv w = (now, w1)" by (cases "read_clock sv w")
  have "wl_db w1 = wl_db w" using read_clock_state [OF c] by simp
  then have "sess\<lparr>ss_title := title text, ss_updated := now\<rparr> \<in> set (db_sessions (wl_db (store_title sv sess text w)))"
    using assms c by (force simp: store_title_def set_title_def update_sessions_def update_rows_def)
  then show ?thesis by (intro bexI [of _ "sess\<lparr>ss_title := title text, ss_updated := now\<rparr>"]) simp_all
qed

text \<open>What one reported result puts on record.\<close>

definition recorded_as :: "string \<Rightarrow> tool_result_input \<Rightarrow> audit_entry \<Rightarrow> bool" where
  "recorded_as sid r e \<longleftrightarrow>
     au_session e = sid \<and> au_call_id e = ri_call r \<and> au_tool e = ri_tool r \<and> au_side e = SideClient \<and> au_input e = ri_input r \<and>
     au_decision e = ri_decision r \<and> au_decision e \<in> set decisions \<and> take max_outcome (au_outcome e) = take max_outcome (ri_content r)"

lemma record_tool_recorded:
  assumes "record_tool now (result_entry sess r) db = (Inr (), db')" "ri_decision r \<in> set decisions"
  shows "\<exists>e. db_audit db' = db_audit db @ [e] \<and> recorded_as (ss_id sess) r e \<and> db_sessions db' = db_sessions db \<and> db_messages db' = db_messages db"
  using assms by (auto simp: record_tool_def Let_def result_entry_def recorded_as_def split: if_splits)

lemma record_results_audit:
  "record_results ag sess rs w = (Inr ms, w') \<Longrightarrow>
     \<exists>es. db_audit (wl_db w') = db_audit (wl_db w) @ es \<and> list_all2 (recorded_as (ss_id sess)) rs es \<and> ms = List.map result_message rs \<and>
       db_sessions (wl_db w') = db_sessions (wl_db w) \<and> db_messages (wl_db w') = db_messages (wl_db w) \<and> wl_pool w' = wl_pool w"
proof (induction rs arbitrary: w ms)
  case (Cons r rs)
  obtain now w1 where c: "read_clock ag w = (now, w1)" by (cases "read_clock ag w")
  have w1: "wl_db w1 = wl_db w" "wl_pool w1 = wl_pool w" using read_clock_state [OF c] by simp_all
  have d: "ri_decision r \<in> set decisions" using Cons.prems by (auto simp: validate_decision_def split: if_splits)
  obtain db ms' where t: "record_tool now (result_entry sess r) (wl_db w1) = (Inr (), db)"
    and rest: "record_results ag sess rs (w1\<lparr>wl_db := db\<rparr>) = (Inr ms', w')" and ms: "ms = result_message r # ms'"
    using Cons.prems c by (auto split: if_splits sum.splits prod.splits)
  obtain e where e: "db_audit db = db_audit (wl_db w) @ [e]" "recorded_as (ss_id sess) r e"
    "db_sessions db = db_sessions (wl_db w)" "db_messages db = db_messages (wl_db w)"
    using record_tool_recorded [OF t d] w1 by auto
  obtain es where "db_audit (wl_db w') = db_audit db @ es" "list_all2 (recorded_as (ss_id sess)) rs es" "ms' = List.map result_message rs"
    "db_sessions (wl_db w') = db_sessions db" "db_messages (wl_db w') = db_messages db" "wl_pool w' = wl_pool w1"
    using Cons.IH [OF rest] by auto
  with e ms w1 show ?case by (intro exI [of _ "e # es"]) simp
qed simp

lemma record_results_succeed:
  assumes "\<forall>r \<in> set rs. ri_call r \<noteq> '''' \<and> ri_decision r \<in> set decisions" "ss_id sess \<in> ss_id ` set (db_sessions (wl_db w))"
  shows "\<exists>ms w'. record_results ag sess rs w = (Inr ms, w')"
  using assms
proof (induction rs arbitrary: w)
  case (Cons r rs)
  obtain now w1 where c: "read_clock ag w = (now, w1)" by (cases "read_clock ag w")
  have w1: "wl_db w1 = wl_db w" using read_clock_state [OF c] by simp
  obtain db where t: "record_tool now (result_entry sess r) (wl_db w1) = (Inr (), db)" "db_sessions db = db_sessions (wl_db w)"
    using Cons.prems(2) w1 by (auto simp: record_tool_def Let_def result_entry_def)
  with Cons.IH [of "w1\<lparr>wl_db := db\<rparr>"] Cons.prems obtain ms w' where "record_results ag sess rs (w1\<lparr>wl_db := db\<rparr>) = (Inr ms, w')" by auto
  with Cons.prems(1) c t show ?case by (simp add: validate_decision_def)
qed simp

text \<open>Every result the client reports is put on record, in order and before the model sees it, under the
  decision the client states: its input in full and its outcome up to the limit, whatever the record switch says.\<close>

lemma reported_results_are_audited:
  assumes "handle_tool_results ag vj client sid (Some r) w = (reply, w')" "session_lookup sid client (wl_db w) = Inr sess"
    and "rq_results r \<noteq> []" "validate_client_tools vj (rq_tools r) = Inr tools"
    and "\<forall>x \<in> set (rq_results r). ri_call x \<noteq> '''' \<and> ri_decision x \<in> set decisions"
  shows "\<exists>es more. db_audit (wl_db w') = db_audit (wl_db w) @ es @ more \<and> list_all2 (recorded_as sid) (rq_results r) es"
proof -
  have row: "sess \<in> set (db_sessions (wl_db w))" "ss_id sess = sid" using session_lookup_row [OF assms(2)] by simp_all
  obtain ms w1 where rec: "record_results ag sess (rq_results r) w = (Inr ms, w1)"
    using record_results_succeed [OF assms(5), of sess w ag] row by blast
  then obtain out where run: "advance ag sess tools ms w1 = (out, w')"
    using assms(1-4) by (auto simp: handle_tool_results_def find_session_def Let_def split: prod.splits)
  obtain es where es: "db_audit (wl_db w1) = db_audit (wl_db w) @ es" "list_all2 (recorded_as sid) (rq_results r) es"
    using record_results_audit [OF rec] row(2) by blast
  have "\<exists>more. db_audit (wl_db w') = db_audit (wl_db w1) @ more"
    by (rule audit_grows.advance_keeps [OF _ refl run]) simp
  with es show ?thesis by auto
qed

section \<open>Properties\<close>

text \<open>C25: The first message of a conversation becomes its stored title even when the conversation is off the
  record, so the beginning of what was said is written to the database.\<close>

theorem off_record_title_is_stored:
  assumes "session_lookup sid client (wl_db w) = Inr sess" "\<not> ss_record sess" "ss_title sess = ''''" "wl_pool w = Some e"
    and "trim_space (pm_text r) \<noteq> ''''" "validate_client_tools vj (pm_tools r) = Inr tools"
    and "handle_post_message ag vj client sid (Some r) w = (reply, w')"
  shows "\<exists>s \<in> set (db_sessions (wl_db w')). ss_id s = sid \<and> ss_title s = title (pm_text r)"
proof -
  let ?w = "store_title ag sess (pm_text r) w"
  have row: "sess \<in> set (db_sessions (wl_db w))" "ss_id sess = sid" using session_lookup_row [OF assms(1)] by simp_all
  obtain out where run: "advance ag sess tools [user_message (pm_text r)] ?w = (out, w')"
    using assms by (auto simp: handle_post_message_def find_session_def Let_def split: prod.splits)
  have "transcript_for sess ?w = DualTranscript False" using assms(2,4) by (simp add: transcript_for_def store_title_world)
  then have "db_sessions (wl_db w') = db_sessions (wl_db ?w)"
    using off_record.advance_keeps [OF _ _ run, of "db_messages (wl_db ?w)" "db_sessions (wl_db ?w)" "wl_index ?w"] by simp
  with store_title_row [OF row(1) assms(3), of ag "pm_text r"] row(2) show ?thesis by simp
qed

lemma off_record_title_is_stored_witness:
  "\<exists>s \<in> set (db_sessions (wl_db (snd (handle_post_message (demo_agent (demo_response ''ok'' []) new_registry) (\<lambda>_. True) 1 ''s1''
     (Some \<lparr>pm_text = ''my secret'', pm_tools = []\<rparr>) (demo_world False))))). ss_title s = ''my secret''"
proof -
  let ?ag = "demo_agent (demo_response ''ok'' []) new_registry" and ?r = "\<lparr>pm_text = ''my secret'', pm_tools = []\<rparr>"
  obtain reply w' where run: "handle_post_message ?ag (\<lambda>_. True) 1 ''s1'' (Some ?r) (demo_world False) = (reply, w')"
    by (cases "handle_post_message ?ag (\<lambda>_. True) 1 ''s1'' (Some ?r) (demo_world False)")
  have "session_lookup ''s1'' 1 (wl_db (demo_world False)) = Inr (demo_session False)"
    by (simp add: session_lookup_def owned_def first_row_Cons demo_world_def demo_session_def)
  moreover have t: "trim_space ''my secret'' \<noteq> ''''" "title ''my secret'' = ''my secret''" by code_simp+
  moreover have "validate_client_tools (\<lambda>_. True) [] = Inr []" by (simp add: validate_client_tools_def)
  ultimately have "\<exists>s \<in> set (db_sessions (wl_db w')). ss_id s = ''s1'' \<and> ss_title s = title (pm_text ?r)"
    using off_record_title_is_stored [OF _ _ _ _ _ _ run] by (simp add: demo_session_def demo_world_def)
  then show ?thesis using run t by auto
qed

end
