(* ===== verification/Actions.thy ===== *)
theory Actions
  imports AgentLoop "HOL-Library.Product_Lexorder"
begin

text \<open>
  The actions the client runs on the user's own machine: \<open>internal/client/actions\<close> (\<open>actions.go\<close>,
  \<open>roots.go\<close>, \<open>fs.go\<close>). The machine is a parameter: its working directory, symlink resolution,
  \<open>stat\<close>, directory listings and \<open>rename\<close>, and on a case-insensitive platform the comparison
  \<open>EqualFold\<close>. Decoding a tool's JSON input is a parameter too. The lexical path functions of
  \<open>path/filepath\<close> are defined, with the separator \<open>/\<close>.
\<close>

section \<open>Paths\<close>

fun split_path :: "string \<Rightarrow> string list" where
  "split_path [] = [[]]"
| "split_path (c # cs) =
     (if c = CHR ''/'' then [] # split_path cs
      else case split_path cs of [] \<Rightarrow> [[c]] | x # xs \<Rightarrow> (c # x) # xs)"

fun join_sep :: "string \<Rightarrow> string list \<Rightarrow> string" where
  "join_sep sep [] = ''''"
| "join_sep sep [x] = x"
| "join_sep sep (x # y # xs) = x @ sep @ join_sep sep (y # xs)"

abbreviation join_path :: "string list \<Rightarrow> string" where
  "join_path \<equiv> join_sep ''/''"

fun clean_step :: "bool \<Rightarrow> string list \<Rightarrow> string \<Rightarrow> string list" where
  "clean_step rooted out e =
     (if e = '''' \<or> e = ''.'' then out
      else if e = ''..'' then
        (case out of [] \<Rightarrow> if rooted then [] else [e] | x # xs \<Rightarrow> if x = ''..'' then e # out else xs)
      else e # out)"

definition is_rooted :: "string \<Rightarrow> bool" where
  "is_rooted p = (case p of [] \<Rightarrow> False | c # _ \<Rightarrow> c = CHR ''/'')"

definition clean_path :: "string \<Rightarrow> string" where
  "clean_path p =
     (let es = rev (foldl (clean_step (is_rooted p)) [] (split_path p))
      in if is_rooted p then CHR ''/'' # join_path es else if es = [] then ''.'' else join_path es)"

definition abs_path :: "string \<Rightarrow> string \<Rightarrow> string" where
  "abs_path cwd p = (if is_rooted p then clean_path p else clean_path (cwd @ ''/'' @ p))"

definition dir_path :: "string \<Rightarrow> string" where
  "dir_path p = clean_path (rev (dropWhile (\<lambda>c. c \<noteq> CHR ''/'') (rev p)))"

definition base_path :: "string \<Rightarrow> string" where
  "base_path p =
     (if p = '''' then ''.''
      else let q = rev (dropWhile (\<lambda>c. c = CHR ''/'') (rev p))
           in if q = '''' then ''/'' else rev (takeWhile (\<lambda>c. c \<noteq> CHR ''/'') (rev q)))"

definition child_path :: "string \<Rightarrow> string \<Rightarrow> string" where
  "child_path d name = clean_path (d @ ''/'' @ name)"

section \<open>The machine\<close>

record file_info =
  fi_dir :: bool
  fi_size :: int
  fi_modified :: string

datatype stat_result = StatMissing string | StatFailed string | StatFound file_info

record dir_entry =
  de_name :: string
  de_dir :: bool
  de_size :: int

text \<open>What \<open>WalkDir\<close> hands its callback: a path, and the entry unless it could not be read.\<close>

record 'm os =
  os_cwd :: "'m \<Rightarrow> string"
  os_eval :: "'m \<Rightarrow> string \<Rightarrow> string option"
  os_stat :: "'m \<Rightarrow> string \<Rightarrow> stat_result"
  os_read_dir :: "'m \<Rightarrow> string \<Rightarrow> string + dir_entry list"
  os_walk :: "'m \<Rightarrow> string \<Rightarrow> (string \<times> dir_entry option) list"
  os_rel :: "string \<Rightarrow> string \<Rightarrow> string option"
  os_rename :: "'m \<Rightarrow> string \<Rightarrow> string \<Rightarrow> string option \<times> 'm"
  os_fold :: "(string \<Rightarrow> string \<Rightarrow> bool) option"

definition path_equal :: "'m os \<Rightarrow> string \<Rightarrow> string \<Rightarrow> bool" where
  "path_equal os a b = (case os_fold os of None \<Rightarrow> a = b | Some eq \<Rightarrow> eq a b)"

definition path_has_prefix :: "'m os \<Rightarrow> string \<Rightarrow> string \<Rightarrow> bool" where
  "path_has_prefix os s pre =
     (case os_fold os of
        None \<Rightarrow> has_prefix s pre
      | Some eq \<Rightarrow> length pre \<le> length s \<and> eq (take (length pre) s) pre)"

section \<open>Roots\<close>

datatype action_error =
    NoRoots
  | RootError string string
  | RootNotDir string
  | PathRequired
  | OutsideRoots string "string list"
  | BadInput string string
  | NameRequired
  | NameSpaces string
  | NameIsPath string
  | NameReserved string
  | NameCharacters string
  | StatError string string
  | IsDirectory string
  | WouldOverwrite string
  | RenameFailed string string
  | ReadFailed string string

type_synonym roots = "string list"

fun resolve_root :: "'m os \<Rightarrow> 'm \<Rightarrow> string \<Rightarrow> action_error + string" where
  "resolve_root os m p =
     (let a = abs_path (os_cwd os m) p in
      case os_stat os m a of
        StatMissing e \<Rightarrow> Inl (RootError p e)
      | StatFailed e \<Rightarrow> Inl (RootError p e)
      | StatFound i \<Rightarrow>
          if \<not> fi_dir i then Inl (RootNotDir p)
          else Inr (clean_path (case os_eval os m a of None \<Rightarrow> a | Some real \<Rightarrow> real)))"

fun resolve_roots :: "'m os \<Rightarrow> 'm \<Rightarrow> string list \<Rightarrow> action_error + roots" where
  "resolve_roots os m [] = Inr []"
| "resolve_roots os m (p # ps) =
     (case resolve_root os m p of Inl e \<Rightarrow> Inl e | Inr r \<Rightarrow>
      case resolve_roots os m ps of Inl e \<Rightarrow> Inl e | Inr rs \<Rightarrow> Inr (r # rs))"

definition new_roots :: "'m os \<Rightarrow> 'm \<Rightarrow> string list \<Rightarrow> action_error + roots" where
  "new_roots os m ps = (if ps = [] then Inl NoRoots else resolve_roots os m ps)"

definition root_prefix :: "string \<Rightarrow> string" where
  "root_prefix root = (if has_suffix root ''/'' then root else root @ ''/'')"

definition contains_path :: "'m os \<Rightarrow> roots \<Rightarrow> string \<Rightarrow> bool" where
  "contains_path os rs p =
     list_ex (\<lambda>root. path_equal os p root \<or> path_has_prefix os p (root_prefix root)) rs"

definition resolve_path :: "'m os \<Rightarrow> 'm \<Rightarrow> roots \<Rightarrow> string \<Rightarrow> action_error + string" where
  "resolve_path os m rs p =
     (if trim_space p = '''' then Inl PathRequired
      else let a = abs_path (os_cwd os m) p;
               real = (case os_eval os m a of None \<Rightarrow> a | Some r \<Rightarrow> r)
           in if contains_path os rs real then Inr real else Inl (OutsideRoots p rs))"

definition resolve_new :: "'m os \<Rightarrow> 'm \<Rightarrow> roots \<Rightarrow> string \<Rightarrow> action_error + string" where
  "resolve_new os m rs p =
     (let a = abs_path (os_cwd os m) p in
      case resolve_path os m rs (dir_path a) of Inl e \<Rightarrow> Inl e | Inr _ \<Rightarrow> Inr a)"

section \<open>Errors as the model reads them\<close>

fun action_error_text :: "action_error \<Rightarrow> string" where
  "action_error_text NoRoots = ''no roots configured: set \"roots\" in the client config''"
| "action_error_text (RootError p e) = ''root '' @ go_quote p @ '': '' @ e"
| "action_error_text (RootNotDir p) = ''root '' @ go_quote p @ '' is not a directory''"
| "action_error_text PathRequired = ''path is required''"
| "action_error_text (OutsideRoots p rs) =
     go_quote p @ '': path is outside the allowed roots (allowed: '' @ join_sep '', '' rs @ '')''"
| "action_error_text (BadInput tool e) = tool @ '': invalid input: '' @ e"
| "action_error_text NameRequired = ''new_name is required''"
| "action_error_text (NameSpaces n) = ''new_name '' @ go_quote n @ '' has leading or trailing whitespace''"
| "action_error_text (NameIsPath n) = ''new_name '' @ go_quote n @ '' must be a filename, not a path''"
| "action_error_text (NameReserved n) = ''new_name '' @ go_quote n @ '' is not a valid filename''"
| "action_error_text (NameCharacters n) =
     ''new_name '' @ go_quote n @ '' contains characters that are not allowed in a filename''"
| "action_error_text (StatError p e) = ''stat '' @ p @ '': '' @ e"
| "action_error_text (IsDirectory p) = p @ '' is a directory; rename_file only renames files''"
| "action_error_text (WouldOverwrite p) = ''refusing to overwrite existing file '' @ p"
| "action_error_text (RenameFailed b e) = ''rename '' @ b @ '': '' @ e"
| "action_error_text (ReadFailed d e) = ''read '' @ d @ '': '' @ e"

section \<open>Listing\<close>

definition default_max_entries :: int where "default_max_entries = 200"

text \<open>One decimal of \<open>n / d\<close> for a power of two \<open>d\<close>: the quotient of two doubles is exact below
  \<open>2^53\<close>, and \<open>%.1f\<close> rounds an exact half to even.\<close>

definition one_decimal :: "int \<Rightarrow> int \<Rightarrow> string" where
  "one_decimal n d =
     (let t = n * 10 div d; r = n * 10 mod d;
          k = (if d < 2 * r \<or> (d = 2 * r \<and> odd t) then t + 1 else t)
      in int_str (k div 10) @ ''.'' @ int_str (k mod 10))"

function human_units :: "int \<Rightarrow> int \<Rightarrow> nat \<Rightarrow> int \<times> nat" where
  "human_units m d e = (if 1024 \<le> m then human_units (m div 1024) (d * 1024) (e + 1) else (d, e))"
  by pat_completeness auto

termination human_units
  by (relation "measure (\<lambda>(m, d, e). nat m)") auto

definition human_size :: "int \<Rightarrow> string" where
  "human_size n =
     (if n < 1024 then int_str n @ '' B''
      else let (d, e) = human_units (n div 1024) 1024 0
           in one_decimal n d @ '' '' @ [''KMGTPE'' ! e] @ ''iB'')"

text \<open>\<open>sort.Slice\<close> is not stable; entries whose names differ only in case come in the order of the listing.\<close>

definition sort_entries :: "dir_entry list \<Rightarrow> dir_entry list" where
  "sort_entries es = sort_key (\<lambda>e. (\<not> de_dir e, to_lower (de_name e))) es"

fun walk_tree :: "'m os \<Rightarrow> string \<Rightarrow> nat \<Rightarrow> (string \<times> dir_entry option) list \<Rightarrow> dir_entry list \<Rightarrow> dir_entry list \<times> bool" where
  "walk_tree os dir n [] out = (out, False)"
| "walk_tree os dir n ((p, None) # ps) out = walk_tree os dir n ps out"
| "walk_tree os dir n ((p, Some e) # ps) out =
     (if p = dir then walk_tree os dir n ps out
      else if n \<le> length out then (out, True)
      else walk_tree os dir n ps (out @ [e\<lparr>de_name := (case os_rel os dir p of None \<Rightarrow> p | Some r \<Rightarrow> r)\<rparr>]))"

definition walk :: "'m os \<Rightarrow> 'm \<Rightarrow> string \<Rightarrow> bool \<Rightarrow> nat \<Rightarrow> action_error + (dir_entry list \<times> bool)" where
  "walk os m dir recursive n =
     (if \<not> recursive then
        (case os_read_dir os m dir of
           Inl e \<Rightarrow> Inl (ReadFailed dir e)
         | Inr items \<Rightarrow> if n < length items then Inr (take n items, True) else Inr (sort_entries items, False))
      else let (out, truncated) = walk_tree os dir n (os_walk os m dir) [] in Inr (sort_entries out, truncated))"

record list_input =
  li_path :: string
  li_recursive :: bool
  li_max :: int

record rename_input =
  rn_path :: string
  rn_name :: string
  rn_reason :: string

text \<open>Decoding of the inputs; an empty input stands for the empty object.\<close>

record input_codec =
  ic_list :: "string \<Rightarrow> string + list_input"
  ic_stat :: "string \<Rightarrow> string + string"
  ic_rename :: "string \<Rightarrow> string + rename_input"

definition decode_input :: "string \<Rightarrow> (string \<Rightarrow> string + 'i) \<Rightarrow> string \<Rightarrow> action_error + 'i" where
  "decode_input tool dec raw =
     (case dec (if raw = '''' then ''{}'' else raw) of Inl e \<Rightarrow> Inl (BadInput tool e) | Inr i \<Rightarrow> Inr i)"

definition entry_line :: "dir_entry \<Rightarrow> string" where
  "entry_line e =
     (if de_dir e then ''[dir]  '' @ de_name e @ [CHR 0x0A]
      else ''[file] '' @ de_name e @ ''  ('' @ human_size (de_size e) @ '')'' @ [CHR 0x0A])"

definition listing_text :: "string \<Rightarrow> int \<Rightarrow> dir_entry list \<Rightarrow> bool \<Rightarrow> string" where
  "listing_text dir n es truncated =
     dir @ em_dash @ nat_str (length es) @ '' entries'' @
     (if truncated then '' (truncated at '' @ int_str n @ ''; narrow the path or raise max_entries)'' else '''') @ [CHR 0x0A] @
     concat (List.map entry_line es) @ (if es = [] then ''(empty)'' @ [CHR 0x0A] else '''')"

definition run_list :: "'m os \<Rightarrow> input_codec \<Rightarrow> roots \<Rightarrow> 'm \<Rightarrow> string \<Rightarrow> action_error + string" where
  "run_list os ic rs m raw =
     (case decode_input ''list_directory'' (ic_list ic) raw of Inl e \<Rightarrow> Inl e | Inr i \<Rightarrow>
      case resolve_path os m rs (li_path i) of Inl e \<Rightarrow> Inl e | Inr dir \<Rightarrow>
      let n = (if li_max i \<le> 0 \<or> 1000 < li_max i then default_max_entries else li_max i) in
      case walk os m dir (li_recursive i) (nat n) of Inl e \<Rightarrow> Inl e | Inr (es, truncated) \<Rightarrow>
      Inr (listing_text dir n es truncated))"

definition run_stat :: "'m os \<Rightarrow> input_codec \<Rightarrow> roots \<Rightarrow> 'm \<Rightarrow> string \<Rightarrow> action_error + string" where
  "run_stat os ic rs m raw =
     (case decode_input ''stat_path'' (ic_stat ic) raw of Inl e \<Rightarrow> Inl e | Inr p \<Rightarrow>
      case resolve_new os m rs p of Inl e \<Rightarrow> Inl e | Inr a \<Rightarrow>
      case os_stat os m a of
        StatMissing _ \<Rightarrow> Inr (a @ '' does not exist.'')
      | StatFailed e \<Rightarrow> Inl (StatError a e)
      | StatFound i \<Rightarrow>
          Inr (a @ '' exists: '' @ (if fi_dir i then ''directory'' else ''file'') @ '', '' @ human_size (fi_size i) @
               '', modified '' @ fi_modified i))"

section \<open>Renaming\<close>

definition contains_any :: "string \<Rightarrow> string \<Rightarrow> bool" where
  "contains_any s chars = list_ex (\<lambda>c. c \<in> set chars) s"

definition path_separators :: string where "path_separators = [CHR 0x2F, CHR 0x5C]"

definition reserved_chars :: string where "reserved_chars = [CHR 0x3A, CHR 0x2A, CHR 0x3F, CHR 0x22, CHR 0x3C, CHR 0x3E, CHR 0x7C]"

definition validate_base_name :: "string \<Rightarrow> action_error option" where
  "validate_base_name name =
     (if trim_space name = '''' then Some NameRequired
      else if name \<noteq> trim_space name then Some (NameSpaces name)
      else if contains_any name path_separators then Some (NameIsPath name)
      else if name = ''.'' \<or> name = ''..'' then Some (NameReserved name)
      else if contains_any name reserved_chars then Some (NameCharacters name)
      else None)"

definition run_rename :: "'m os \<Rightarrow> input_codec \<Rightarrow> roots \<Rightarrow> 'm \<Rightarrow> string \<Rightarrow> (action_error + string) \<times> 'm" where
  "run_rename os ic rs m raw =
     (case decode_input ''rename_file'' (ic_rename ic) raw of Inl e \<Rightarrow> (Inl e, m) | Inr i \<Rightarrow>
      case validate_base_name (rn_name i) of Some e \<Rightarrow> (Inl e, m) | None \<Rightarrow>
      case resolve_path os m rs (rn_path i) of Inl e \<Rightarrow> (Inl e, m) | Inr src \<Rightarrow>
      case os_stat os m src of
        StatMissing e \<Rightarrow> (Inl (StatError src e), m)
      | StatFailed e \<Rightarrow> (Inl (StatError src e), m)
      | StatFound info \<Rightarrow>
          if fi_dir info then (Inl (IsDirectory src), m)
          else
            let dst = child_path (dir_path src) (rn_name i)
            in if path_equal os src dst then (Inr (src @ '' already has that name; nothing to do.''), m)
               else case os_stat os m dst of
                 StatFound _ \<Rightarrow> (Inl (WouldOverwrite dst), m)
               | StatFailed e \<Rightarrow> (Inl (StatError dst e), m)
               | StatMissing _ \<Rightarrow>
                   (case os_rename os m src dst of
                      (Some e, m') \<Rightarrow> (Inl (RenameFailed (base_path src) e), m')
                    | (None, m') \<Rightarrow>
                        (Inr (''Renamed '' @ go_quote (base_path src) @ '' to '' @ go_quote (rn_name i) @ '' in '' @ dir_path src @ ''.''), m')))"

section \<open>The action set\<close>

record 'm action =
  ac_def :: tool_def
  ac_run :: "'m \<Rightarrow> string \<Rightarrow> (action_error + string) \<times> 'm"

type_synonym 'm action_set = "(string \<times> 'm action) list"

definition add_action :: "'m action \<Rightarrow> 'm action_set \<Rightarrow> 'm action_set" where
  "add_action a s = AList.update (td_name (ac_def a)) (a\<lparr>ac_def := (ac_def a)\<lparr>td_side := SideClient\<rparr>\<rparr>) s"

definition action_of :: "string \<Rightarrow> string \<Rightarrow> string \<Rightarrow> risk \<Rightarrow> ('m \<Rightarrow> string \<Rightarrow> (action_error + string) \<times> 'm) \<Rightarrow> 'm action" where
  "action_of name descr schema rk run =
     \<lparr>ac_def = \<lparr>td_name = name, td_description = descr, td_parameters = schema, td_risk = rk, td_side = SideClient\<rparr>, ac_run = run\<rparr>"

text \<open>The descriptions and JSON schemas are texts for the model; they are arguments here.\<close>

definition new_actions :: "'m os \<Rightarrow> input_codec \<Rightarrow> (string \<Rightarrow> string \<times> string) \<Rightarrow> roots \<Rightarrow> 'm action_set" where
  "new_actions os ic texts rs =
     add_action (action_of ''rename_file'' (fst (texts ''rename_file'')) (snd (texts ''rename_file'')) RiskWrite (run_rename os ic rs))
       (add_action (action_of ''stat_path'' (fst (texts ''stat_path'')) (snd (texts ''stat_path'')) RiskRead (\<lambda>m raw. (run_stat os ic rs m raw, m)))
         (add_action (action_of ''list_directory'' (fst (texts ''list_directory'')) (snd (texts ''list_directory'')) RiskRead (\<lambda>m raw. (run_list os ic rs m raw, m)))
           []))"

definition action_definitions :: "'m action_set \<Rightarrow> tool_def list" where
  "action_definitions s = sort_key td_name (List.map (\<lambda>(_, a). ac_def a) s)"

definition lookup_action :: "'m action_set \<Rightarrow> string \<Rightarrow> 'm action option" where
  "lookup_action s name = map_of s name"

definition execute :: "'m action_set \<Rightarrow> tool_call \<Rightarrow> 'm \<Rightarrow> tool_result \<times> 'm" where
  "execute s call m =
     (case lookup_action s (tc_name call) of
        None \<Rightarrow> (errorf (tc_id call) (''this machine has no tool named '' @ go_quote (tc_name call)), m)
      | Some a \<Rightarrow>
          (case ac_run a m (tc_input call) of
             (Inl e, m') \<Rightarrow> (errorf (tc_id call) (action_error_text e), m')
           | (Inr out, m') \<Rightarrow> (\<lparr>tr_call_id = tc_id call, tr_content = out, tr_is_error = False\<rparr>, m')))"

section \<open>Clean absolute paths\<close>

definition path_name :: "string \<Rightarrow> bool" where
  "path_name e \<longleftrightarrow> e \<noteq> '''' \<and> e \<noteq> ''.'' \<and> e \<noteq> ''..'' \<and> CHR ''/'' \<notin> set e"

definition path_of :: "string list \<Rightarrow> string" where
  "path_of es = CHR ''/'' # join_path es"

lemma split_not_Nil [simp]: "split_path s \<noteq> []"
  by (cases s) (auto split: list.splits)

lemma split_name: "CHR ''/'' \<notin> set e \<Longrightarrow> split_path (e @ s) = (case split_path s of x # xs \<Rightarrow> (e @ x) # xs | [] \<Rightarrow> [e])"
proof (induction e)
  case Nil
  then show ?case using split_not_Nil [of s] by (cases "split_path s") simp_all
next
  case (Cons c e)
  then show ?case using split_not_Nil [of s] by (cases "split_path s") auto
qed

lemma split_one: "CHR ''/'' \<notin> set e \<Longrightarrow> split_path e = [e]"
  using split_name [of e "''''"] by simp

lemma split_append_slash: "split_path (s @ CHR ''/'' # t) = split_path s @ split_path t"
proof (induction s)
  case (Cons c s)
  then show ?case using split_not_Nil [of s] by (cases "split_path s") simp_all
qed simp

lemma join_cons: "join_path (x # xs) = x @ (if xs = [] then '''' else CHR ''/'' # join_path xs)"
  by (cases xs) simp_all

lemma split_join: "es \<noteq> [] \<Longrightarrow> \<forall>e \<in> set es. CHR ''/'' \<notin> set e \<Longrightarrow> split_path (join_path es) = es"
proof (induction es)
  case (Cons x xs)
  then show ?case by (simp add: join_cons split_append_slash split_one)
qed simp

lemma join_snoc: "es \<noteq> [] \<Longrightarrow> join_path (es @ [e]) = join_path es @ ''/'' @ e"
proof (induction es)
  case (Cons x xs)
  then show ?case by (simp add: join_cons)
qed simp

lemma split_path_of: "\<forall>e \<in> set es. path_name e \<Longrightarrow> split_path (path_of es) = '''' # (if es = [] then [''''] else es)"
  using split_join [of es] by (auto simp: path_of_def path_name_def)

lemma fold_clean: "\<forall>e \<in> set es. path_name e \<Longrightarrow> foldl (clean_step True) out es = rev es @ out"
  by (induction es arbitrary: out) (auto simp: path_name_def)

lemma clean_path_of: "\<forall>e \<in> set es. path_name e \<Longrightarrow> clean_path (path_of es) = path_of es"
  using split_path_of [of es] fold_clean [of es "[]"]
  by (simp add: clean_path_def is_rooted_def path_of_def)

lemma child_path_of:
  assumes "\<forall>e \<in> set es. path_name e" "path_name n"
  shows "child_path (path_of es) n = path_of (es @ [n])"
proof -
  have s: "split_path (path_of es @ ''/'' @ n) = '''' # (if es = [] then [''''] else es) @ [n]"
    using split_append_slash [of "path_of es" n] split_path_of [OF assms(1)] split_one [of n] assms(2)
    by (simp add: path_name_def)
  have f: "foldl (clean_step True) [] (es @ [n]) = n # rev es"
    using fold_clean [of "es @ [n]" "[]"] assms by simp
  have "foldl (clean_step True) [] (split_path (path_of es @ ''/'' @ n)) = n # rev es"
    unfolding s using f by (cases "es = []") (simp_all del: clean_step.simps add: clean_step.simps [of True "[]" "''''"])
  then show ?thesis by (simp add: child_path_def clean_path_def is_rooted_def path_of_def)
qed

lemma drop_name: "CHR ''/'' \<notin> set n \<Longrightarrow> dropWhile (\<lambda>c. c \<noteq> CHR ''/'') (rev n @ CHR ''/'' # s) = CHR ''/'' # s"
  by (subst dropWhile_append2) auto

lemma dir_path_of:
  assumes "\<forall>e \<in> set (es @ [n]). path_name e"
  shows "dir_path (path_of (es @ [n])) = path_of es"
proof -
  have n: "CHR ''/'' \<notin> set n" and es: "\<forall>e \<in> set es. path_name e" using assms by (simp_all add: path_name_def)
  show ?thesis
  proof (cases "es = []")
    case True
    with drop_name [OF n, of "[]"] show ?thesis by (simp add: dir_path_def path_of_def clean_path_def is_rooted_def)
  next
    case False
    have d: "dir_path (path_of (es @ [n])) = clean_path (path_of es @ ''/'')"
      using drop_name [OF n, of "rev (path_of es)"] by (simp add: dir_path_def path_of_def join_snoc [OF False])
    have s: "split_path (path_of es @ ''/'') = '''' # es @ ['''']"
      using split_append_slash [of "path_of es" "''''"] split_path_of [OF es] False by simp
    have "foldl (clean_step True) [] (split_path (path_of es @ ''/'')) = rev es"
      unfolding s using fold_clean [OF es, of "[]"] by simp
    then show ?thesis
      unfolding d by (simp add: clean_path_def is_rooted_def path_of_def)
  qed
qed

definition clean_abs :: "string \<Rightarrow> bool" where
  "clean_abs p \<longleftrightarrow> is_rooted p \<and> clean_path p = p"

lemma split_no_slash: "e \<in> set (split_path s) \<Longrightarrow> CHR ''/'' \<notin> set e"
proof (induction s arbitrary: e)
  case (Cons c s)
  then show ?case using split_not_Nil [of s] by (cases "split_path s") (auto split: if_splits)
qed simp

lemma fold_clean_names:
  "\<forall>e \<in> set xs. CHR ''/'' \<notin> set e \<Longrightarrow> \<forall>e \<in> set out. path_name e \<Longrightarrow> \<forall>e \<in> set (foldl (clean_step True) out xs). path_name e"
proof (induction xs arbitrary: out)
  case (Cons x xs)
  have "\<forall>e \<in> set (clean_step True out x). path_name e"
    using Cons.prems by (auto simp: path_name_def split: list.splits)
  with Cons.IH Cons.prems(1) show ?case by simp
qed simp

lemma clean_rooted:
  assumes "is_rooted p"
  obtains es where "\<forall>e \<in> set es. path_name e" "clean_path p = path_of es"
proof
  show "\<forall>e \<in> set (rev (foldl (clean_step True) [] (split_path p))). path_name e"
    using fold_clean_names [of "split_path p" "[]"] split_no_slash by auto
  show "clean_path p = path_of (rev (foldl (clean_step True) [] (split_path p)))"
    using assms by (simp add: clean_path_def path_of_def)
qed

lemma rooted_path_of [simp]: "is_rooted (path_of es)"
  by (simp add: is_rooted_def path_of_def)

lemma clean_abs_iff: "clean_abs p \<longleftrightarrow> (\<exists>es. (\<forall>e \<in> set es. path_name e) \<and> p = path_of es)"
proof
  assume "clean_abs p"
  then have "is_rooted p" "clean_path p = p" by (simp_all add: clean_abs_def)
  then show "\<exists>es. (\<forall>e \<in> set es. path_name e) \<and> p = path_of es" using clean_rooted [of p] by auto
qed (auto simp: clean_abs_def clean_path_of)

lemma clean_abs_clean: "is_rooted p \<Longrightarrow> clean_abs (clean_path p)"
proof -
  assume "is_rooted p"
  then obtain es where "\<forall>e \<in> set es. path_name e" "clean_path p = path_of es" by (rule clean_rooted)
  then show ?thesis unfolding clean_abs_iff by blast
qed

lemma abs_path_clean: "is_rooted cwd \<Longrightarrow> clean_abs (abs_path cwd p)"
  by (cases cwd) (simp_all add: abs_path_def clean_abs_clean is_rooted_def)

lemma path_of_inj: "\<forall>e \<in> set es. path_name e \<Longrightarrow> \<forall>e \<in> set fs. path_name e \<Longrightarrow> path_of es = path_of fs \<Longrightarrow> es = fs"
proof -
  assume *: "\<forall>e \<in> set es. path_name e" "\<forall>e \<in> set fs. path_name e" "path_of es = path_of fs"
  then have "(if es = [] then [''''] else es) = (if fs = [] then [''''] else fs)"
    using split_path_of [of es] split_path_of [of fs] by simp
  then show "es = fs" using *(1,2) by (cases es; cases fs) (simp_all add: path_name_def)
qed

lemma root_prefix_of:
  assumes "\<forall>e \<in> set es. path_name e"
  shows "root_prefix (path_of es) = (if es = [] then ''/'' else path_of es @ ''/'')"
proof (cases es rule: rev_cases)
  case Nil
  then show ?thesis by (simp add: root_prefix_def path_of_def has_suffix_def)
next
  case (snoc fs e)
  then have "e \<noteq> ''''" "CHR ''/'' \<notin> set e" using assms by (auto simp: path_name_def)
  then obtain e' c where e: "e = e' @ [c]" "c \<noteq> CHR ''/''" by (cases e rule: rev_cases) auto
  then have "rev (path_of es) = c # rev (path_of fs @ (if fs = [] then [] else ''/'') @ e')"
    using snoc by (cases "fs = []") (simp_all add: path_of_def join_snoc)
  then show ?thesis using snoc e by (simp add: root_prefix_def has_suffix_def)
qed

lemma join_append: "es \<noteq> [] \<Longrightarrow> xs \<noteq> [] \<Longrightarrow> join_path (es @ xs) = join_path es @ ''/'' @ join_path xs"
proof (induction es)
  case (Cons x es)
  then show ?case by (cases "es = []") (simp_all add: join_cons)
qed simp

text \<open>On a case-sensitive file system containment is that of the lists of names.\<close>

lemma contains_path_of:
  assumes "os_fold os = None" "\<forall>e \<in> set es. path_name e"
    and "\<forall>r \<in> set rs. clean_abs r"
  shows "contains_path os rs (path_of es) \<longleftrightarrow>
    (\<exists>fs xs. (\<forall>e \<in> set fs. path_name e) \<and> path_of fs \<in> set rs \<and> es = fs @ xs)"
proof -
  have one: "path_equal os (path_of es) (path_of fs) \<or> path_has_prefix os (path_of es) (root_prefix (path_of fs))
      \<longleftrightarrow> (\<exists>xs. es = fs @ xs)" (is "?l \<longleftrightarrow> ?r") if f: "\<forall>e \<in> set fs. path_name e" for fs
  proof
    assume ?l
    then consider "path_of es = path_of fs" | "fs = []" | t where "fs \<noteq> []" "path_of es = path_of fs @ ''/'' @ t"
      using assms(1) by (auto simp: path_equal_def path_has_prefix_def root_prefix_of [OF f] has_prefix_iff split: if_splits)
    then show ?r
    proof cases
      case 1
      with path_of_inj assms(2) f have "es = fs" by blast
      then show ?thesis by simp
    next
      case (3 t)
      then have "'''' # (if es = [] then [''''] else es) = '''' # fs @ split_path t"
        using split_append_slash [of "path_of fs" t] split_path_of [OF assms(2)] split_path_of [OF f] by simp
      then have eq: "(if es = [] then [''''] else es) = fs @ split_path t" by simp
      have "es \<noteq> []"
      proof
        assume "es = []"
        then have "hd fs = ''''" using eq 3(1) by (cases fs) simp_all
        with 3(1) f show False by (cases fs) (simp_all add: path_name_def)
      qed
      then show ?thesis using eq by auto
    qed simp
  next
    assume ?r
    then obtain xs where xs: "es = fs @ xs" by blast
    show ?l
    proof (cases "xs = [] \<or> fs = []")
      case True
      then consider "xs = []" | "fs = []" by blast
      then show ?thesis
      proof cases
        case 1
        then show ?thesis using xs assms(1) by (simp add: path_equal_def)
      next
        case 2
        then show ?thesis using xs assms(1)
          by (simp add: path_has_prefix_def root_prefix_def has_suffix_def has_prefix_iff path_of_def)
      qed
    next
      case False
      then have "path_of es = path_of fs @ ''/'' @ join_path xs" using xs by (simp add: path_of_def join_append)
      then show ?thesis using False assms(1)
        by (simp add: path_has_prefix_def root_prefix_of [OF f] has_prefix_iff)
    qed
  qed
  show ?thesis (is "?c \<longleftrightarrow> ?e")
  proof
    assume ?c
    then obtain r where r: "r \<in> set rs" "path_equal os (path_of es) r \<or> path_has_prefix os (path_of es) (root_prefix r)"
      by (auto simp: contains_path_def list_ex_iff)
    obtain fs where fs: "\<forall>e \<in> set fs. path_name e" "r = path_of fs" using assms(3) r(1) by (auto simp: clean_abs_iff)
    with r one [OF fs(1)] show ?e by blast
  next
    assume ?e
    then obtain fs xs where "\<forall>e \<in> set fs. path_name e" "path_of fs \<in> set rs" "es = fs @ xs" by blast
    with one show ?c unfolding contains_path_def list_ex_iff by blast
  qed
qed

lemma contains_clean:
  assumes "os_fold os = None" "clean_abs p" "\<forall>r \<in> set rs. clean_abs r"
  shows "contains_path os rs p \<longleftrightarrow> (\<exists>es fs. (\<forall>e \<in> set (es @ fs). path_name e) \<and> path_of es \<in> set rs \<and> p = path_of (es @ fs))"
proof -
  obtain ns where ns: "\<forall>e \<in> set ns. path_name e" "p = path_of ns" using assms(2) by (auto simp: clean_abs_iff)
  show ?thesis
    unfolding ns(2) contains_path_of [OF assms(1) ns(1) assms(3)]
  proof
    assume "\<exists>fs xs. (\<forall>e\<in>set fs. path_name e) \<and> path_of fs \<in> set rs \<and> ns = fs @ xs"
    then obtain fs xs where "path_of fs \<in> set rs" "ns = fs @ xs" by blast
    then show "\<exists>es fs. (\<forall>e\<in>set (es @ fs). path_name e) \<and> path_of es \<in> set rs \<and> path_of ns = path_of (es @ fs)"
      using ns(1) by blast
  next
    assume "\<exists>es fs. (\<forall>e\<in>set (es @ fs). path_name e) \<and> path_of es \<in> set rs \<and> path_of ns = path_of (es @ fs)"
    then obtain es fs where e: "\<forall>e\<in>set (es @ fs). path_name e" "path_of es \<in> set rs" "path_of ns = path_of (es @ fs)" by blast
    with path_of_inj [OF ns(1) e(1)] show "\<exists>fs xs. (\<forall>e\<in>set fs. path_name e) \<and> path_of fs \<in> set rs \<and> ns = fs @ xs"
      by auto
  qed
qed

section \<open>What a rename can touch\<close>

text \<open>What the client relies on of the machine: the working directory is absolute, a resolved path is
  clean and absolute (\<open>EvalSymlinks\<close>), and comparison is case-sensitive.\<close>

definition os_lawful :: "'m os \<Rightarrow> 'm \<Rightarrow> bool" where
  "os_lawful os m \<longleftrightarrow> os_fold os = None \<and> is_rooted (os_cwd os m) \<and>
     (\<forall>p r. os_eval os m p = Some r \<longrightarrow> clean_abs r)"

definition is_dir_at :: "'m os \<Rightarrow> 'm \<Rightarrow> string \<Rightarrow> bool" where
  "is_dir_at os m p = (case os_stat os m p of StatFound i \<Rightarrow> fi_dir i | _ \<Rightarrow> False)"

lemma resolve_root_clean:
  assumes "os_lawful os m" "resolve_root os m p = Inr r"
  shows "clean_abs r"
proof -
  have "clean_abs (abs_path (os_cwd os m) p)" using assms(1) abs_path_clean by (auto simp: os_lawful_def)
  with assms show ?thesis
    by (auto simp: os_lawful_def clean_abs_def Let_def split: stat_result.splits if_splits option.splits)
qed

lemma resolve_roots_clean:
  "os_lawful os m \<Longrightarrow> resolve_roots os m ps = Inr rs \<Longrightarrow> \<forall>r \<in> set rs. clean_abs r"
proof (induction ps arbitrary: rs)
  case (Cons p ps)
  then show ?case using resolve_root_clean [of os m p]
    by (auto simp del: resolve_root.simps split: sum.splits)
qed simp

lemma new_roots_clean: "os_lawful os m \<Longrightarrow> new_roots os m ps = Inr rs \<Longrightarrow> \<forall>r \<in> set rs. clean_abs r"
  using resolve_roots_clean [of os m ps rs] by (auto simp: new_roots_def split: if_splits)

lemma resolve_path_clean:
  assumes "os_lawful os m" "resolve_path os m rs p = Inr q"
  shows "clean_abs q" "contains_path os rs q"
proof -
  have "clean_abs (abs_path (os_cwd os m) p)" using assms(1) abs_path_clean by (auto simp: os_lawful_def)
  with assms show "clean_abs q" "contains_path os rs q"
    by (auto simp: os_lawful_def resolve_path_def Let_def split: if_splits option.splits)
qed

lemma valid_base_name: "validate_base_name n = None \<Longrightarrow> path_name n"
  by (auto simp: validate_base_name_def path_name_def contains_any_def path_separators_def list_ex_iff
      split: if_splits)

text \<open>A rename that runs was decoded, named, resolved and found free.\<close>

lemma run_rename_effect:
  assumes "run_rename os ic rs m raw = (res, m')"
  obtains "m' = m"
  | i src info e where "ic_rename ic (if raw = '''' then ''{}'' else raw) = Inr i" "validate_base_name (rn_name i) = None"
      "resolve_path os m rs (rn_path i) = Inr src" "os_stat os m src = StatFound info" "\<not> fi_dir info"
      "\<not> path_equal os src (child_path (dir_path src) (rn_name i))"
      "os_stat os m (child_path (dir_path src) (rn_name i)) = StatMissing e"
      "m' = snd (os_rename os m src (child_path (dir_path src) (rn_name i)))"
proof (cases "m' = m")
  case False
  then obtain i src info e where
    "ic_rename ic (if raw = '''' then ''{}'' else raw) = Inr i" "validate_base_name (rn_name i) = None"
      "resolve_path os m rs (rn_path i) = Inr src" "os_stat os m src = StatFound info" "\<not> fi_dir info"
      "\<not> path_equal os src (child_path (dir_path src) (rn_name i))"
      "os_stat os m (child_path (dir_path src) (rn_name i)) = StatMissing e"
      "m' = snd (os_rename os m src (child_path (dir_path src) (rn_name i)))"
    using assms
    by (auto simp: run_rename_def decode_input_def Let_def
        split: sum.splits option.splits stat_result.splits prod.splits if_splits)
  then show ?thesis by (rule that(2))
qed (rule that(1))


text \<open>A machine with two directories and one file; its state is the list of the renames made.\<close>

definition demo_os :: "(string \<times> string) list os" where
  "demo_os = \<lparr>os_cwd = (\<lambda>_. ''/home''), os_eval = (\<lambda>_ _. None),
     os_stat = (\<lambda>_ p. if p = ''/srv'' \<or> p = ''/srv/tv'' then StatFound \<lparr>fi_dir = True, fi_size = 0, fi_modified = ''''\<rparr>
                     else if p = ''/srv/tv/a'' then StatFound \<lparr>fi_dir = False, fi_size = 3, fi_modified = ''''\<rparr>
                     else StatMissing ''no such file''),
     os_read_dir = (\<lambda>_ _. Inr []), os_walk = (\<lambda>_ _. []), os_rel = (\<lambda>_ p. Some p),
     os_rename = (\<lambda>m a b. (None, (a, b) # m)), os_fold = None\<rparr>"

definition demo_codec :: input_codec where
  "demo_codec = \<lparr>ic_list = (\<lambda>_. Inl ''none''), ic_stat = Inr,
     ic_rename = (\<lambda>s. Inr \<lparr>rn_path = s, rn_name = ''b'', rn_reason = ''''\<rparr>)\<rparr>"

lemma demo_os_lawful: "os_lawful demo_os m"
  by (simp add: os_lawful_def demo_os_def is_rooted_def)

lemma demo_roots: "new_roots demo_os [] [''/srv/''] = Inr [''/srv'']"
  by code_simp

lemma demo_rename:
  "run_rename demo_os demo_codec [''/srv''] [] ''/srv/x/../tv/a'' =
     (Inr ''Renamed \"a\" to \"b\" in /srv/tv.'', [(''/srv/tv/a'', ''/srv/tv/b'')])"
  by code_simp


end
