(* ===== verification/Client.thy ===== *)
theory Client
  imports TurnApi Actions
begin

text \<open>
  The desktop harness: \<open>internal/client\<close> (\<open>approval.go\<close>, \<open>harness.go\<close>, \<open>transport.go\<close>,
  \<open>config.go\<close>) and the loop of \<open>cmd/wintermute\<close>. The user's terminal is the sequence of results
  \<open>ReadString\<close> gives, over when it is used up; what is printed is kept as a list of texts. The server
  behind the HTTP client is a parameter with a state of its own, and so is JSON.
\<close>

section \<open>Configuration\<close>

record config =
  cf_url :: string
  cf_token :: string
  cf_roots :: "string list"
  cf_auto_reads :: "bool option"
  cf_always :: "string list"
  cf_never :: "string list"

datatype config_file = FileBody string | FileMissing | FileUnreadable string

datatype config_error = ConfigParse string string | ConfigRead string string | ConfigMissing "string list" string

definition empty_config :: config where
  "empty_config = \<lparr>cf_url = '''', cf_token = '''', cf_roots = [], cf_auto_reads = None, cf_always = [], cf_never = []\<rparr>"

fun split_on :: "char \<Rightarrow> string \<Rightarrow> string list" where
  "split_on sep [] = [[]]"
| "split_on sep (c # cs) =
     (if c = sep then [] # split_on sep cs
      else case split_on sep cs of [] \<Rightarrow> [[c]] | x # xs \<Rightarrow> (c # x) # xs)"

definition split_roots :: "char \<Rightarrow> string \<Rightarrow> string list" where
  "split_roots sep v = List.filter (\<lambda>p. p \<noteq> '''') (List.map trim_space (split_on sep v))"

definition trim_slashes :: "string \<Rightarrow> string" where
  "trim_slashes s = rev (dropWhile (\<lambda>c. c = CHR ''/'') (rev s))"

text \<open>\<open>decode\<close> is \<open>json.Unmarshal\<close> into a configuration; \<open>env\<close> is \<open>os.Getenv\<close>.\<close>

definition load_config ::
  "(string \<Rightarrow> string + config) \<Rightarrow> (string \<Rightarrow> string) \<Rightarrow> char \<Rightarrow> string \<Rightarrow> config_file \<Rightarrow> config_error + config" where
  "load_config decode env sep path file =
     (case (case file of
              FileBody body \<Rightarrow> (case decode body of Inl e \<Rightarrow> Inl (ConfigParse path e) | Inr c \<Rightarrow> Inr c)
            | FileMissing \<Rightarrow> Inr empty_config
            | FileUnreadable e \<Rightarrow> Inl (ConfigRead path e)) of
        Inl e \<Rightarrow> Inl e
      | Inr c \<Rightarrow>
          let c1 = (if env ''WINTERMUTE_SERVER'' \<noteq> '''' then c\<lparr>cf_url := env ''WINTERMUTE_SERVER''\<rparr> else c);
              c2 = (if env ''WINTERMUTE_TOKEN'' \<noteq> '''' then c1\<lparr>cf_token := env ''WINTERMUTE_TOKEN''\<rparr> else c1);
              c3 = (if env ''WINTERMUTE_ROOTS'' \<noteq> '''' then c2\<lparr>cf_roots := split_roots sep (env ''WINTERMUTE_ROOTS'')\<rparr> else c2)
          in Inr (c3\<lparr>cf_url := trim_slashes (trim_space (cf_url c3)), cf_token := trim_space (cf_token c3)\<rparr>))"

definition validate_config :: "config \<Rightarrow> string \<Rightarrow> config_error option" where
  "validate_config c path =
     (let missing = (if cf_url c = '''' then [''server_url''] else []) @
                    (if cf_token c = '''' then [''token''] else []) @
                    (if cf_roots c = [] then [''roots''] else [])
      in if missing \<noteq> [] then Some (ConfigMissing missing path) else None)"

definition reads_auto_approved :: "config \<Rightarrow> bool" where
  "reads_auto_approved c = (case cf_auto_reads c of None \<Rightarrow> True | Some b \<Rightarrow> b)"

section \<open>The approval policy\<close>

record decision =
  dn_allow :: bool
  dn_record :: string
  dn_reason :: string

definition refused :: "string \<Rightarrow> string \<Rightarrow> decision" where
  "refused record reason = \<lparr>dn_allow = False, dn_record = record, dn_reason = reason\<rparr>"

definition allowed :: "string \<Rightarrow> decision" where
  "allowed record = \<lparr>dn_allow = True, dn_record = record, dn_reason = ''''\<rparr>"

record policy =
  pl_auto_reads :: bool
  pl_always :: "string set"
  pl_never :: "string set"
  pl_assume_yes :: bool

definition new_policy :: "config \<Rightarrow> bool \<Rightarrow> policy" where
  "new_policy c assume_yes =
     \<lparr>pl_auto_reads = reads_auto_approved c, pl_always = set (cf_always c), pl_never = set (cf_never c),
      pl_assume_yes = assume_yes\<rparr>"

text \<open>\<open>None\<close> when the policy does not settle the call and the user has to be asked.\<close>

definition evaluate :: "policy \<Rightarrow> string \<Rightarrow> risk \<Rightarrow> decision option" where
  "evaluate p name rk =
     (if name \<in> pl_never p
      then Some (refused ''blocked'' (go_quote name @ '' is disabled on this machine by the client configuration.''))
      else if name \<in> pl_always p then Some (allowed ''auto'')
      else case rk of
        RiskRead \<Rightarrow> if pl_auto_reads p then Some (allowed ''auto'') else None
      | RiskWrite \<Rightarrow> if pl_assume_yes p then Some (allowed ''auto'') else None
      | _ \<Rightarrow> None)"

section \<open>Asking the user\<close>

datatype read_result = ReadLine string | ReadEof | ReadFault string

record prompter =
  pr_in :: "read_result list"
  pr_out :: "string list"
  pr_session_allow :: "string set"
  pr_deny_rest :: bool

definition new_prompter :: "read_result list \<Rightarrow> prompter" where
  "new_prompter reads = \<lparr>pr_in = reads, pr_out = [], pr_session_allow = {}, pr_deny_rest = False\<rparr>"

text \<open>The transport's own copy of a pending call.\<close>

record client_call =
  cc_id :: string
  cc_name :: string
  cc_input :: string
  cc_risk :: risk
  cc_description :: string

fun risk_label :: "risk \<Rightarrow> string" where
  "risk_label RiskRead = ''[read]''"
| "risk_label RiskWrite = ''[WRITE]''"
| "risk_label RiskDestructive = ''[DESTRUCTIVE]''"
| "risk_label (RiskOther _) = ''[?]''"

definition preferred_keys :: "string list" where
  "preferred_keys = [''path'', ''new_name'', ''reason'']"

definition ordered_keys :: "(string \<times> string) list \<Rightarrow> string list" where
  "ordered_keys fs =
     (let first = List.filter (\<lambda>k. k \<in> fst ` set fs) preferred_keys
      in first @ sort (List.filter (\<lambda>k. k \<notin> set first) (List.map fst fs)))"

text \<open>\<open>parse\<close> decodes an input to its fields, each with the value as \<open>%v\<close> prints it; the keys are distinct.\<close>

definition describe_input :: "(string \<Rightarrow> (string \<times> string) list option) \<Rightarrow> string \<Rightarrow> string list" where
  "describe_input parse raw =
     (case parse raw of
        None \<Rightarrow> [raw]
      | Some fs \<Rightarrow> List.map (\<lambda>k. k @ '': '' @ (case map_of fs k of None \<Rightarrow> '''' | Some v \<Rightarrow> v)) (ordered_keys fs))"

definition nl :: string where "nl = [CHR 0x0A]"

definition shown :: "(string \<Rightarrow> (string \<times> string) list option) \<Rightarrow> client_call \<Rightarrow> string list" where
  "shown parse c =
     (nl @ ''  '' @ risk_label (cc_risk c) @ ''  '' @ cc_name c @ nl) #
     List.map (\<lambda>l. ''    '' @ l @ nl) (describe_input parse (cc_input c))"

definition allow_prompt :: string where
  "allow_prompt = ''  Allow? [y]es / [n]o / [a]lways this tool / [q]uit turn: ''"

definition declined_reason :: string where
  "declined_reason = ''The user declined this action.''"

definition declined_rest :: string where
  "declined_rest = ''The user declined this and any further actions in this turn.''"

definition answer :: "string \<Rightarrow> string" where
  "answer line = to_lower (trim_space line)"

text \<open>The loop of \<open>Confirm\<close>: it reads until an answer settles the call or the input ends.\<close>

fun confirm_loop :: "client_call \<Rightarrow> read_result list \<Rightarrow> prompter \<Rightarrow> (string + decision) \<times> prompter" where
  "confirm_loop c [] p =
     (Inr (refused ''denied'' ''No approval was given (input closed).''), p\<lparr>pr_in := [], pr_out := pr_out p @ [allow_prompt, nl]\<rparr>)"
| "confirm_loop c (ReadEof # rs) p =
     (Inr (refused ''denied'' ''No approval was given (input closed).''), p\<lparr>pr_in := rs, pr_out := pr_out p @ [allow_prompt, nl]\<rparr>)"
| "confirm_loop c (ReadFault e # rs) p =
     (Inl (''read approval: '' @ e), p\<lparr>pr_in := rs, pr_out := pr_out p @ [allow_prompt]\<rparr>)"
| "confirm_loop c (ReadLine line # rs) p =
     (let p1 = p\<lparr>pr_in := rs, pr_out := pr_out p @ [allow_prompt]\<rparr>; a = answer line in
      if a = ''y'' \<or> a = ''yes'' then (Inr (allowed ''approved''), p1)
      else if a = ''n'' \<or> a = ''no'' \<or> a = '''' then (Inr (refused ''denied'' declined_reason), p1)
      else if a = ''a'' \<or> a = ''always'' then
        (if cc_risk c = RiskDestructive
         then confirm_loop c rs (p1\<lparr>pr_out := pr_out p1 @ [''  Destructive actions must be approved one at a time.'' @ nl]\<rparr>)
         else (Inr (allowed ''approved''), p1\<lparr>pr_session_allow := insert (cc_name c) (pr_session_allow p1)\<rparr>))
      else if a = ''q'' \<or> a = ''quit'' then (Inr (refused ''denied'' declined_rest), p1\<lparr>pr_deny_rest := True\<rparr>)
      else confirm_loop c rs (p1\<lparr>pr_out := pr_out p1 @ [''  Please answer y, n, a or q.'' @ nl]\<rparr>))"

definition confirm ::
  "(string \<Rightarrow> (string \<times> string) list option) \<Rightarrow> client_call \<Rightarrow> prompter \<Rightarrow> (string + decision) \<times> prompter" where
  "confirm parse c p =
     (if pr_deny_rest p then (Inr (refused ''denied'' declined_rest), p)
      else if cc_name c \<in> pr_session_allow p then (Inr (allowed ''approved''), p)
      else confirm_loop c (pr_in p) (p\<lparr>pr_out := pr_out p @ shown parse c\<rparr>))"

definition reset_prompter :: "prompter \<Rightarrow> prompter" where
  "reset_prompter p = p\<lparr>pr_deny_rest := False\<rparr>"

section \<open>Carrying out the pending calls\<close>

record result_payload =
  rp_call :: string
  rp_tool :: string
  rp_input :: string
  rp_content :: string
  rp_is_error :: bool
  rp_decision :: string
  rp_risk :: risk

definition payload :: "client_call \<Rightarrow> string \<Rightarrow> string \<Rightarrow> bool \<Rightarrow> result_payload" where
  "payload c decision content err =
     \<lparr>rp_call = cc_id c, rp_tool = cc_name c, rp_input = cc_input c, rp_content = content, rp_is_error = err,
      rp_decision = decision, rp_risk = cc_risk c\<rparr>"

definition call_of :: "client_call \<Rightarrow> tool_call" where
  "call_of c = \<lparr>tc_id = cc_id c, tc_name = cc_name c, tc_input = cc_input c\<rparr>"

record 'm harness =
  hn_actions :: "'m action_set"
  hn_policy :: policy
  hn_fields :: "string \<Rightarrow> (string \<times> string) list option"

record 'm desk =
  dk_machine :: 'm
  dk_prompter :: prompter
  dk_out :: "string list"

definition say :: "string \<Rightarrow> 'm desk \<Rightarrow> 'm desk" where
  "say t d = d\<lparr>dk_out := dk_out d @ [t]\<rparr>"

definition cross_mark :: string where "cross_mark = [CHR 0xE2, CHR 0x9C, CHR 0x97]"
definition check_mark :: string where "check_mark = [CHR 0xE2, CHR 0x9C, CHR 0x93]"

text \<open>What becomes of one call once it has been decided.\<close>

definition carry_out :: "'m harness \<Rightarrow> client_call \<Rightarrow> decision \<Rightarrow> 'm desk \<Rightarrow> result_payload \<times> 'm desk" where
  "carry_out h c dn d =
     (if \<not> dn_allow dn then
        (payload c (dn_record dn)
           ((if dn_reason dn = '''' then declined_reason else dn_reason dn) @
            '' The file was not changed. Do not retry it without being asked.'') False,
         say (''  '' @ cross_mark @ '' '' @ cc_name c @ em_dash @ ''declined'' @ nl) d)
      else
        let (r, m') = execute (hn_actions h) (call_of c) (dk_machine d);
            d1 = d\<lparr>dk_machine := m'\<rparr>;
            d2 = (if tr_is_error r then say (''  ! '' @ cc_name c @ em_dash @ tr_content r @ nl) d1
                  else if cc_risk c \<noteq> RiskRead then say (''  '' @ check_mark @ '' '' @ tr_content r @ nl) d1
                  else d1)
        in (payload c (dn_record dn) (tr_content r) (tr_is_error r), d2))"

definition handle_call :: "'m harness \<Rightarrow> client_call \<Rightarrow> 'm desk \<Rightarrow> result_payload \<times> 'm desk" where
  "handle_call h c d =
     (case lookup_action (hn_actions h) (cc_name c) of
        None \<Rightarrow> (payload c ''blocked'' (''This machine has no tool named '' @ go_quote (cc_name c) @ ''.'') True, d)
      | Some _ \<Rightarrow>
          (case evaluate (hn_policy h) (cc_name c) (cc_risk c) of
             Some dn \<Rightarrow> carry_out h c dn d
           | None \<Rightarrow>
               (case confirm (hn_fields h) c (dk_prompter d) of
                  (Inl e, p) \<Rightarrow>
                    (payload c ''denied'' (''Approval could not be collected: '' @ e) True, d\<lparr>dk_prompter := p\<rparr>)
                | (Inr dn, p) \<Rightarrow> carry_out h c dn (d\<lparr>dk_prompter := p\<rparr>))))"

fun handle_calls :: "'m harness \<Rightarrow> client_call list \<Rightarrow> 'm desk \<Rightarrow> result_payload list \<times> 'm desk" where
  "handle_calls h [] d = ([], d)"
| "handle_calls h (c # cs) d =
     (let (r, d1) = handle_call h c d; (rs, d2) = handle_calls h cs d1 in (r # rs, d2))"

section \<open>The HTTP client\<close>

datatype request_body =
    NoBody
  | TitleBody string
  | MessageBody string "tool_def list"
  | ResultsBody "result_payload list" "tool_def list"

record http_request =
  hq_method :: string
  hq_url :: string
  hq_token :: string
  hq_body :: request_body

record http_response =
  hr_code :: nat
  hr_status :: string
  hr_body :: string

datatype api_error = ContactFailed string string | ServerError string | ServerReturned string | DecodeFailed string

record client_turn =
  ctn_session :: string
  ctn_status :: string
  ctn_reply :: string
  ctn_pending :: "client_call list"
  ctn_total :: int

text \<open>The network with the server behind it, and the decoding of what it answers. \<open>wr_error\<close> is the
  error field of a body, empty when there is none.\<close>

record 's wire =
  wr_send :: "'s \<Rightarrow> http_request \<Rightarrow> (string + http_response) \<times> 's"
  wr_error :: "string \<Rightarrow> string"
  wr_turn :: "string \<Rightarrow> string + client_turn"
  wr_session :: "string \<Rightarrow> string + (string \<times> string)"

record 's api =
  api_wire :: "'s wire"
  api_base :: string
  api_token :: string

definition api_do ::
  "'s api \<Rightarrow> string \<Rightarrow> string \<Rightarrow> request_body \<Rightarrow> (string \<Rightarrow> string + 'a) \<Rightarrow> 's \<Rightarrow> (api_error + 'a) \<times> 's" where
  "api_do a meth path body decode s =
     (case wr_send (api_wire a) s \<lparr>hq_method = meth, hq_url = api_base a @ path, hq_token = ''Bearer '' @ api_token a, hq_body = body\<rparr> of
        (Inl e, s') \<Rightarrow> (Inl (ContactFailed (api_base a) e), s')
      | (Inr r, s') \<Rightarrow>
          (if hr_code r < 200 \<or> 299 < hr_code r then
             (if wr_error (api_wire a) (hr_body r) \<noteq> '''' then (Inl (ServerError (wr_error (api_wire a) (hr_body r))), s')
              else (Inl (ServerReturned (hr_status r)), s'))
           else case decode (hr_body r) of Inl e \<Rightarrow> (Inl (DecodeFailed e), s') | Inr v \<Rightarrow> (Inr v, s')))"

definition post_session :: "'s api \<Rightarrow> string \<Rightarrow> 's \<Rightarrow> (api_error + (string \<times> string)) \<times> 's" where
  "post_session a ttl = api_do a ''POST'' ''/api/v1/sessions'' (TitleBody ttl) (wr_session (api_wire a))"

definition send_message :: "'s api \<Rightarrow> string \<Rightarrow> string \<Rightarrow> tool_def list \<Rightarrow> 's \<Rightarrow> (api_error + client_turn) \<times> 's" where
  "send_message a sid txt tools =
     api_do a ''POST'' (''/api/v1/sessions/'' @ sid @ ''/messages'') (MessageBody txt tools) (wr_turn (api_wire a))"

definition send_results ::
  "'s api \<Rightarrow> string \<Rightarrow> result_payload list \<Rightarrow> tool_def list \<Rightarrow> 's \<Rightarrow> (api_error + client_turn) \<times> 's" where
  "send_results a sid results tools =
     api_do a ''POST'' (''/api/v1/sessions/'' @ sid @ ''/tool_results'') (ResultsBody results tools) (wr_turn (api_wire a))"

section \<open>One request of the user\<close>

datatype ask_error = NoSession | AskFailed api_error | NothingPending

record ('m, 's) session_state =
  sn_id :: string
  sn_desk :: "'m desk"
  sn_server :: 's

definition start_session :: "'s api \<Rightarrow> string \<Rightarrow> ('m, 's) session_state \<Rightarrow> api_error option \<times> ('m, 's) session_state" where
  "start_session a ttl st =
     (case post_session a ttl (sn_server st) of
        (Inl e, s) \<Rightarrow> (Some e, st\<lparr>sn_server := s\<rparr>)
      | (Inr (sid, _), s) \<Rightarrow> (None, st\<lparr>sn_id := sid, sn_server := s\<rparr>))"

definition show_reply :: "client_turn \<Rightarrow> 'm desk \<Rightarrow> 'm desk" where
  "show_reply t d = (if ctn_reply t \<noteq> '''' then say (nl @ ctn_reply t @ nl) d else d)"

text \<open>The loop of \<open>Ask\<close>. Each round carries out what the server asked for and sends the results
  back; the fuel counts the rounds, and \<open>None\<close> means it ran out.\<close>

definition ask_round :: "'m harness \<Rightarrow> 's api \<Rightarrow> client_turn \<Rightarrow> ('m, 's) session_state \<Rightarrow> (api_error + client_turn) \<times> ('m, 's) session_state" where
  "ask_round h a t st =
     (let (rs, d) = handle_calls h (ctn_pending t) (sn_desk st)
      in case send_results a (sn_id st) rs (action_definitions (hn_actions h)) (sn_server st) of
           (v, s) \<Rightarrow> (v, st\<lparr>sn_desk := d, sn_server := s\<rparr>))"

fun ask_loop ::
  "nat \<Rightarrow> 'm harness \<Rightarrow> 's api \<Rightarrow> client_turn \<Rightarrow> ('m, 's) session_state \<Rightarrow> (ask_error option \<times> ('m, 's) session_state) option" where
  "ask_loop 0 h a t st = None"
| "ask_loop (Suc n) h a t st =
     (let st1 = st\<lparr>sn_desk := show_reply t (sn_desk st)\<rparr> in
      if ctn_status t \<noteq> ''awaiting_client'' then Some (None, st1)
      else if ctn_pending t = [] then Some (Some NothingPending, st1)
      else case ask_round h a t st1 of
             (Inl e, st2) \<Rightarrow> Some (Some (AskFailed e), st2)
           | (Inr t', st2) \<Rightarrow> ask_loop n h a t' st2)"

definition ask ::
  "nat \<Rightarrow> 'm harness \<Rightarrow> 's api \<Rightarrow> string \<Rightarrow> ('m, 's) session_state \<Rightarrow> (ask_error option \<times> ('m, 's) session_state) option" where
  "ask n h a txt st =
     (if sn_id st = '''' then Some (Some NoSession, st)
      else
        let st1 = st\<lparr>sn_desk := (sn_desk st)\<lparr>dk_prompter := reset_prompter (dk_prompter (sn_desk st))\<rparr>\<rparr>
        in case send_message a (sn_id st) txt (action_definitions (hn_actions h)) (sn_server st) of
             (Inl e, s) \<Rightarrow> Some (Some (AskFailed e), st1\<lparr>sn_server := s\<rparr>)
           | (Inr t, s) \<Rightarrow> ask_loop n h a t (st1\<lparr>sn_server := s\<rparr>))"

fun api_error_text :: "api_error \<Rightarrow> string" where
  "api_error_text (ContactFailed base e) = ''contact server at '' @ base @ '': '' @ e"
| "api_error_text (ServerError e) = ''server: '' @ e"
| "api_error_text (ServerReturned status) = ''server returned '' @ status"
| "api_error_text (DecodeFailed e) = ''decode response: '' @ e"

fun ask_error_text :: "ask_error \<Rightarrow> string" where
  "ask_error_text NoSession = ''no active session''"
| "ask_error_text (AskFailed e) = api_error_text e"
| "ask_error_text NothingPending = ''server requested client actions but sent none''"

text \<open>The command's loop over the lines of its input; \<open>n\<close> is the fuel of each request. The run is not
  cancelled, and the lines are those the scanner gets: it and the prompter read the same terminal.\<close>

definition announce :: "string \<Rightarrow> ('m, 's) session_state \<Rightarrow> ('m, 's) session_state" where
  "announce t st = st\<lparr>sn_desk := say t (sn_desk st)\<rparr>"

fun repl :: "nat \<Rightarrow> 'm harness \<Rightarrow> 's api \<Rightarrow> string list \<Rightarrow> ('m, 's) session_state \<Rightarrow> ('m, 's) session_state option" where
  "repl n h a [] st = Some (announce nl (announce (nl @ ''> '') st))"
| "repl n h a (line # ls) st =
     (let st1 = announce (nl @ ''> '') st; txt = trim_space line in
      if txt = '''' then repl n h a ls st1
      else if txt = ''/exit'' \<or> txt = ''/quit'' then Some st1
      else case ask n h a txt st1 of
        None \<Rightarrow> None
      | Some (None, st2) \<Rightarrow> repl n h a ls st2
      | Some (Some e, st2) \<Rightarrow> repl n h a ls (announce (nl @ ''error: '' @ ask_error_text e @ nl) st2))"

section \<open>Consent\<close>

definition affirmative :: "client_call \<Rightarrow> string \<Rightarrow> bool" where
  "affirmative c line =
     (answer line \<in> {''y'', ''yes''} \<or> answer line \<in> {''a'', ''always''} \<and> cc_risk c \<noteq> RiskDestructive)"

lemma confirm_loop_allows:
  "confirm_loop c rs p = (Inr dn, p') \<Longrightarrow> dn_allow dn \<Longrightarrow>
     \<exists>xs line more. rs = xs @ ReadLine line # pr_in p' \<and> affirmative c line \<and> pr_out p' = pr_out p @ more @ [allow_prompt] \<and>
       dn_record dn = ''approved'' \<and> pr_deny_rest p' = pr_deny_rest p"
proof (induction rs arbitrary: p)
  case (Cons r rs)
  show ?case
  proof (cases r)
    case (ReadLine line)
    let ?again = "\<lambda>t. p\<lparr>pr_in := rs, pr_out := pr_out p @ [allow_prompt, t]\<rparr>"
    from Cons.prems ReadLine consider
        (now) "affirmative c line" "pr_in p' = rs" "pr_out p' = pr_out p @ [allow_prompt]" "dn_record dn = ''approved''" "pr_deny_rest p' = pr_deny_rest p"
      | (again) t where "confirm_loop c rs (?again t) = (Inr dn, p')"
      by (auto simp: Let_def refused_def allowed_def affirmative_def split: if_splits)
    then show ?thesis
    proof cases
      case now
      then show ?thesis using ReadLine by (intro exI [of _ "[]"] exI [of _ line]) auto
    next
      case (again t)
      from Cons.IH [OF again Cons.prems(2)] obtain xs l more where
        "rs = xs @ ReadLine l # pr_in p'" "affirmative c l" "pr_out p' = pr_out (?again t) @ more @ [allow_prompt]"
        "dn_record dn = ''approved''" "pr_deny_rest p' = pr_deny_rest p" by auto
      then show ?thesis by (intro exI [of _ "r # xs"] exI [of _ l] exI [of _ "[allow_prompt, t] @ more"]) auto
    qed
  qed (use Cons.prems in \<open>auto simp: refused_def\<close>)
qed (auto simp: refused_def)

lemma confirm_loop_record:
  "confirm_loop c rs p = (Inr dn, p') \<Longrightarrow> dn_record dn = (if dn_allow dn then ''approved'' else ''denied'')"
  by (induction c rs p rule: confirm_loop.induct)
    (auto simp: refused_def allowed_def Let_def split: if_splits)

lemma confirm_record:
  "confirm parse c p = (Inr dn, p') \<Longrightarrow> dn_record dn = (if dn_allow dn then ''approved'' else ''denied'')"
  using confirm_loop_record by (auto simp: confirm_def refused_def allowed_def split: if_splits)

lemma evaluate_record:
  "evaluate p name rk = Some dn \<Longrightarrow> dn_record dn = (if dn_allow dn then ''auto'' else ''blocked'')"
  by (auto simp: evaluate_def refused_def allowed_def split: if_splits risk.splits)

section \<open>What is reported is what was done\<close>

text \<open>The decisions under which a call runs.\<close>

definition ran :: "string \<Rightarrow> bool" where
  "ran d = (d = ''auto'' \<or> d = ''approved'')"

lemma carry_out_effect:
  assumes "carry_out h c dn d = (r, d')" "ran (dn_record dn) \<longleftrightarrow> dn_allow dn"
  shows "rp_call r = cc_id c \<and> rp_tool r = cc_name c \<and> rp_input r = cc_input c \<and> rp_risk r = cc_risk c \<and> rp_decision r = dn_record dn \<and>
    dk_machine d' = (if ran (rp_decision r) then snd (execute (hn_actions h) (call_of c) (dk_machine d)) else dk_machine d) \<and>
    (ran (rp_decision r) \<longrightarrow> rp_content r = tr_content (fst (execute (hn_actions h) (call_of c) (dk_machine d)))) \<and>
    dk_prompter d' = dk_prompter d"
  using assms by (auto simp: carry_out_def payload_def say_def Let_def split: if_splits prod.splits)

lemma handle_call_effect:
  assumes "handle_call h c d = (r, d')"
  shows "rp_call r = cc_id c" "rp_tool r = cc_name c" "rp_input r = cc_input c" "rp_risk r = cc_risk c" "rp_decision r \<in> set decisions"
    "dk_machine d' = (if ran (rp_decision r) then snd (execute (hn_actions h) (call_of c) (dk_machine d)) else dk_machine d)"
    "ran (rp_decision r) \<longrightarrow> rp_content r = tr_content (fst (execute (hn_actions h) (call_of c) (dk_machine d)))"
proof -
  have "rp_call r = cc_id c \<and> rp_tool r = cc_name c \<and> rp_input r = cc_input c \<and> rp_risk r = cc_risk c \<and> rp_decision r \<in> set decisions \<and>
    dk_machine d' = (if ran (rp_decision r) then snd (execute (hn_actions h) (call_of c) (dk_machine d)) else dk_machine d) \<and>
    (ran (rp_decision r) \<longrightarrow> rp_content r = tr_content (fst (execute (hn_actions h) (call_of c) (dk_machine d))))"
  proof (cases "lookup_action (hn_actions h) (cc_name c)")
    case None
    then show ?thesis using assms by (auto simp: handle_call_def payload_def ran_def decisions_def)
  next
    case (Some a)
    show ?thesis
    proof (cases "evaluate (hn_policy h) (cc_name c) (cc_risk c)")
      case None
      obtain v p where v: "confirm (hn_fields h) c (dk_prompter d) = (v, p)" by (cases "confirm (hn_fields h) c (dk_prompter d)")
      show ?thesis
      proof (cases v)
        case (Inl e)
        then show ?thesis using assms Some None v by (auto simp: handle_call_def payload_def ran_def decisions_def)
      next
        case (Inr dn)
        have dn: "dn_record dn = (if dn_allow dn then ''approved'' else ''denied'')" using confirm_record v Inr by blast
        have "carry_out h c dn (d\<lparr>dk_prompter := p\<rparr>) = (r, d')" using assms Some None v Inr by (simp add: handle_call_def)
        from carry_out_effect [OF this] dn show ?thesis by (auto simp: ran_def decisions_def)
      qed
    next
      case (Some dn)
      have dn: "dn_record dn = (if dn_allow dn then ''auto'' else ''blocked'')" using evaluate_record Some by blast
      have "carry_out h c dn d = (r, d')" using assms Some \<open>lookup_action _ _ = _\<close> by (simp add: handle_call_def)
      from carry_out_effect [OF this] dn show ?thesis by (auto simp: ran_def decisions_def)
    qed
  qed
  then show "rp_call r = cc_id c" "rp_tool r = cc_name c" "rp_input r = cc_input c" "rp_risk r = cc_risk c" "rp_decision r \<in> set decisions"
    "dk_machine d' = (if ran (rp_decision r) then snd (execute (hn_actions h) (call_of c) (dk_machine d)) else dk_machine d)"
    "ran (rp_decision r) \<longrightarrow> rp_content r = tr_content (fst (execute (hn_actions h) (call_of c) (dk_machine d)))" by blast+
qed

text \<open>The effect of the calls a list of results says ran.\<close>

definition replay_result :: "'m action_set \<Rightarrow> 'm \<Rightarrow> result_payload \<Rightarrow> 'm" where
  "replay_result s m r =
     (if ran (rp_decision r) then snd (execute s \<lparr>tc_id = rp_call r, tc_name = rp_tool r, tc_input = rp_input r\<rparr> m) else m)"

lemma handle_calls_replay:
  "handle_calls h cs d = (rs, d') \<Longrightarrow>
     List.map rp_call rs = List.map cc_id cs \<and> (\<forall>r \<in> set rs. rp_decision r \<in> set decisions) \<and>
     dk_machine d' = foldl (replay_result (hn_actions h)) (dk_machine d) rs"
proof (induction cs arbitrary: d rs)
  case (Cons c cs)
  obtain r d1 rs' where r: "handle_call h c d = (r, d1)" and rest: "handle_calls h cs d1 = (rs', d')" and rs: "rs = r # rs'"
    using Cons.prems by (auto split: prod.splits)
  note e = handle_call_effect [OF r]
  have "replay_result (hn_actions h) (dk_machine d) r = dk_machine d1"
    by (simp add: replay_result_def e(1-3,6) call_of_def)
  with Cons.IH [OF rest] e(1,5) rs show ?case by simp
qed simp

section \<open>The machine and the server's audit trail\<close>

fun risk_text :: "risk \<Rightarrow> string" where
  "risk_text RiskRead = ''read''"
| "risk_text RiskWrite = ''write''"
| "risk_text RiskDestructive = ''destructive''"
| "risk_text (RiskOther s) = s"

text \<open>What the server decodes from a result the client encoded.\<close>

definition wire_result :: "result_payload \<Rightarrow> tool_result_input" where
  "wire_result r =
     \<lparr>ri_call = rp_call r, ri_tool = rp_tool r, ri_input = rp_input r, ri_content = rp_content r, ri_is_error = rp_is_error r,
      ri_decision = rp_decision r, ri_risk = risk_text (rp_risk r)\<rparr>"

definition replay_audit :: "'m action_set \<Rightarrow> 'm \<Rightarrow> audit_entry \<Rightarrow> 'm" where
  "replay_audit s m e =
     (if ran (au_decision e) then snd (execute s \<lparr>tc_id = au_call_id e, tc_name = au_tool e, tc_input = au_input e\<rparr> m) else m)"

lemma replay_recorded:
  "list_all2 (recorded_as sid) (List.map wire_result rs) es \<Longrightarrow>
     foldl (replay_audit s) m es = foldl (replay_result s) m rs"
proof (induction rs arbitrary: es m)
  case (Cons r rs)
  then obtain e es' where e: "es = e # es'" "recorded_as sid (wire_result r) e" "list_all2 (recorded_as sid) (List.map wire_result rs) es'"
    by (auto simp: list_all2_Cons1)
  have "replay_audit s m e = replay_result s m r"
    using e(2) by (simp add: replay_audit_def replay_result_def recorded_as_def wire_result_def)
  with Cons.IH [OF e(3)] e(1) show ?case by simp
qed simp

section \<open>Termination of a request\<close>

definition keeps_asking :: "client_turn \<Rightarrow> bool" where
  "keeps_asking t \<longleftrightarrow> ctn_status t = ''awaiting_client'' \<and> ctn_pending t \<noteq> []"

lemma ask_loop_stop: "\<not> keeps_asking t \<Longrightarrow> \<exists>r. ask_loop (Suc n) h a t st = Some r"
  by (auto simp: keeps_asking_def Let_def)

lemma ask_loop_round:
  "keeps_asking t \<Longrightarrow> ask_loop (Suc n) h a t st =
     (case ask_round h a t (st\<lparr>sn_desk := show_reply t (sn_desk st)\<rparr>) of
        (Inl e, st2) \<Rightarrow> Some (Some (AskFailed e), st2) | (Inr t', st2) \<Rightarrow> ask_loop n h a t' st2)"
  by (auto simp: keeps_asking_def Let_def)

lemma ask_loop_more: "ask_loop n h a t st = Some r \<Longrightarrow> n \<le> k \<Longrightarrow> ask_loop k h a t st = Some r"
proof (induction n arbitrary: k t st)
  case (Suc n)
  then obtain j where k: "k = Suc j" "n \<le> j" by (cases k) auto
  show ?case
  proof (cases "keeps_asking t")
    case True
    with Suc.prems(1) Suc.IH k show ?thesis
      by (auto simp: ask_loop_round simp del: ask_loop.simps split: prod.splits sum.splits)
  next
    case False
    then show ?thesis using Suc.prems(1) k(1) by (auto simp: keeps_asking_def Let_def)
  qed
qed simp

lemma ask_round_server:
  "ask_round h a t st = (v, st') \<Longrightarrow> sn_id st' = sn_id st \<and>
     (\<exists>rs. send_results a (sn_id st) rs (action_definitions (hn_actions h)) (sn_server st) = (v, sn_server st'))"
  by (auto simp: ask_round_def split: prod.splits)

lemma ask_loop_returns:
  assumes "\<And>rs s t s'. send_results a sid rs (action_definitions (hn_actions h)) s = (Inr t, s') \<Longrightarrow> keeps_asking t \<Longrightarrow> \<mu> s' < (\<mu> s :: nat)"
  shows "sn_id st = sid \<Longrightarrow> \<exists>n r. ask_loop n h a t st = Some r"
proof (induction "\<mu> (sn_server st)" arbitrary: t st rule: less_induct)
  case less
  show ?case
  proof (cases "keeps_asking t")
    case False
    then show ?thesis using ask_loop_stop by blast
  next
    case True
    let ?st = "st\<lparr>sn_desk := show_reply t (sn_desk st)\<rparr>"
    obtain v st2 where r: "ask_round h a t ?st = (v, st2)" by (cases "ask_round h a t ?st")
    note s = ask_round_server [OF r]
    have step: "ask_loop (Suc n) h a t st = (case v of Inl e \<Rightarrow> Some (Some (AskFailed e), st2) | Inr t' \<Rightarrow> ask_loop n h a t' st2)" for n
      unfolding ask_loop_round [OF True] r by (simp split: sum.splits)
    show ?thesis
    proof (cases v)
      case (Inl e)
      then have "ask_loop (Suc 0) h a t st = Some (Some (AskFailed e), st2)" unfolding step by simp
      then show ?thesis by blast
    next
      case (Inr t')
      have "\<exists>n r. ask_loop n h a t' st2 = Some r"
      proof (cases "keeps_asking t'")
        case True
        with assms s Inr less.prems have "\<mu> (sn_server st2) < \<mu> (sn_server st)" by auto
        with less.hyps s less.prems show ?thesis by simp
      qed (use ask_loop_stop in blast)
      then obtain n r where "ask_loop n h a t' st2 = Some r" by blast
      then have "ask_loop (Suc n) h a t st = Some r" unfolding step Inr by simp
      then show ?thesis by blast
    qed
  qed
qed

section \<open>Properties\<close>


text \<open>C4: The audit trail accounts for the machine. When the client carries out the calls it was sent and the
  server takes in the results, the trail gains one entry per call, in order, and replaying the entries whose decision
  is \<open>auto\<close> or \<open>approved\<close>, with the tool and input they record, takes the machine from the state it
  was in to the state it is in: nothing ran that is not on record, and nothing on record as refused ran.\<close>

theorem audit_replays_to_the_machine:
  assumes "handle_calls h cs d = (rs, d')" "cs \<noteq> []" "\<forall>c \<in> set cs. cc_id c \<noteq> ''''"
    and "session_lookup sid client (wl_db w) = Inr sess" "validate_client_tools vj tools = Inr defs"
    and "handle_tool_results ag vj client sid (Some \<lparr>rq_results = List.map wire_result rs, rq_tools = tools\<rparr>) w = (reply, w')"
  shows "\<exists>es more. db_audit (wl_db w') = db_audit (wl_db w) @ es @ more \<and> List.map au_call_id es = List.map cc_id cs \<and>
    dk_machine d' = foldl (replay_audit (hn_actions h)) (dk_machine d) es"
proof -
  note hc = handle_calls_replay [OF assms(1)]
  then have ids: "List.map rp_call rs = List.map cc_id cs" by blast
  have "rs \<noteq> []" using ids assms(2) by auto
  have "\<forall>r \<in> set rs. rp_call r \<noteq> ''''" using ids assms(3) by (metis in_set_conv_nth length_map nth_map nth_mem)
  then have ok: "\<forall>x \<in> set (List.map wire_result rs). ri_call x \<noteq> '''' \<and> ri_decision x \<in> set decisions"
    using hc by (auto simp: wire_result_def)
  obtain es more where es: "db_audit (wl_db w') = db_audit (wl_db w) @ es @ more" "list_all2 (recorded_as sid) (List.map wire_result rs) es"
    using reported_results_are_audited [OF assms(6,4)] assms(5) ok \<open>rs \<noteq> []\<close> by auto
  have "List.map au_call_id es = List.map rp_call rs"
    using es(2) by (auto simp: list_all2_conv_all_nth recorded_as_def wire_result_def intro!: nth_equalityI)
  with es(1) replay_recorded [OF es(2)] hc ids show ?thesis by metis
qed


text \<open>C26: Nothing on the client bounds the rounds of one request: against a server that answers every result
  with the same pending call, the loop never returns, whatever the user answers.\<close>

theorem ask_unbounded:
  assumes "\<And>s req. \<exists>r s'. wr_send (api_wire a) s req = (Inr r, s') \<and> hr_code r = 200 \<and> wr_turn (api_wire a) (hr_body r) = Inr t"
    and "ctn_status t = ''awaiting_client''" "ctn_pending t \<noteq> []" "sn_id st \<noteq> ''''"
  shows "ask n h a txt st = None"
proof -
  have reply: "\<exists>s'. api_do a ''POST'' path body (wr_turn (api_wire a)) s = (Inr t, s')" for path body s
  proof -
    obtain r s' where "wr_send (api_wire a) s \<lparr>hq_method = ''POST'', hq_url = api_base a @ path, hq_token = ''Bearer '' @ api_token a, hq_body = body\<rparr> = (Inr r, s')"
      "hr_code r = 200" "wr_turn (api_wire a) (hr_body r) = Inr t"
      using assms(1) by blast
    then show ?thesis by (simp add: api_do_def)
  qed
  have loop: "ask_loop n h a t st = None" for n st
  proof (induction n arbitrary: st)
    case (Suc n)
    obtain v st2 where r: "ask_round h a t (st\<lparr>sn_desk := show_reply t (sn_desk st)\<rparr>) = (v, st2)"
      by (cases "ask_round h a t (st\<lparr>sn_desk := show_reply t (sn_desk st)\<rparr>)")
    obtain rs where rs: "send_results a (sn_id st) rs (action_definitions (hn_actions h)) (sn_server st) = (v, sn_server st2)"
      using ask_round_server [OF r] by auto
    obtain s' where "send_results a (sn_id st) rs (action_definitions (hn_actions h)) (sn_server st) = (Inr t, s')"
      using reply unfolding send_results_def by blast
    with rs have "v = Inr t" by simp
    with r Suc.IH [of st2] assms(2,3) show ?case by (simp add: Let_def)
  qed simp
  obtain s' where "send_message a (sn_id st) txt (action_definitions (hn_actions h)) (sn_server st) = (Inr t, s')"
    using reply unfolding send_message_def by blast
  then show ?thesis using loop assms(4) by (simp add: ask_def Let_def)
qed

section \<open>Runs on concrete data\<close>

definition demo_harness :: "(string \<times> string) list harness" where
  "demo_harness =
     \<lparr>hn_actions = new_actions demo_os demo_codec (\<lambda>_. ('''', '''')) [''/srv''],
      hn_policy = new_policy empty_config False, hn_fields = (\<lambda>s. Some [(''path'', s)])\<rparr>"

definition demo_ask :: client_call where
  "demo_ask = \<lparr>cc_id = ''c1'', cc_name = ''rename_file'', cc_input = ''/srv/tv/a'', cc_risk = RiskWrite, cc_description = ''''\<rparr>"

definition demo_desk :: "(string \<times> string) list desk" where
  "demo_desk = \<lparr>dk_machine = [], dk_prompter = new_prompter [ReadLine (''what'' @ nl), ReadLine ('' Y'' @ nl), ReadLine (''n'' @ nl)], dk_out = []\<rparr>"

lemma demo_handled:
  "(let (r, d) = handle_call demo_harness demo_ask demo_desk in
      rp_decision r = ''approved'' \<and> dk_machine d = [(''/srv/tv/a'', ''/srv/tv/b'')] \<and>
      pr_in (dk_prompter d) = [ReadLine (''n'' @ nl)])"
  by code_simp


theorem audit_replays_to_the_machine_witness:
  "\<exists>es more. db_audit (wl_db (snd (handle_tool_results (demo_agent (demo_response ''ok'' []) new_registry) (\<lambda>_. True) 1 ''s1''
      (Some \<lparr>rq_results = List.map wire_result (fst (handle_calls demo_harness [demo_ask] demo_desk)), rq_tools = []\<rparr>) (demo_world True))))
      = db_audit (wl_db (demo_world True)) @ es @ more \<and>
    [(''/srv/tv/a'', ''/srv/tv/b'')] = foldl (replay_audit (hn_actions demo_harness)) [] es"
proof -
  let ?ag = "demo_agent (demo_response ''ok'' []) new_registry"
  obtain rs d where d: "handle_calls demo_harness [demo_ask] demo_desk = (rs, d)" by (cases "handle_calls demo_harness [demo_ask] demo_desk")
  let ?r = "\<lparr>rq_results = List.map wire_result rs, rq_tools = []\<rparr>"
  obtain reply w' where run: "handle_tool_results ?ag (\<lambda>_. True) 1 ''s1'' (Some ?r) (demo_world True) = (reply, w')"
    by (cases "handle_tool_results ?ag (\<lambda>_. True) 1 ''s1'' (Some ?r) (demo_world True)")
  have s: "session_lookup ''s1'' 1 (wl_db (demo_world True)) = Inr (demo_session True)"
    by (simp add: session_lookup_def owned_def first_row_Cons demo_world_def demo_session_def)
  have v: "validate_client_tools (\<lambda>_. True) [] = Inr []" by (simp add: validate_client_tools_def)
  have m: "dk_machine d = [(''/srv/tv/a'', ''/srv/tv/b'')]" "dk_machine demo_desk = []"
    using d demo_handled by (auto simp: demo_desk_def split: prod.splits)
  show ?thesis
    using audit_replays_to_the_machine [OF d _ _ s v run] m run d by (auto simp: demo_ask_def)
qed

text \<open>A server that asks as often as its state says, and one that never stops.\<close>

definition demo_turn :: "string \<Rightarrow> client_turn" where
  "demo_turn status = \<lparr>ctn_session = ''s1'', ctn_status = status, ctn_reply = ''ok'', ctn_pending = [demo_ask], ctn_total = 0\<rparr>"

definition demo_api :: "bool \<Rightarrow> nat api" where
  "demo_api patient =
     \<lparr>api_wire = \<lparr>wr_send = (\<lambda>s _. (Inr \<lparr>hr_code = 200, hr_status = ''200 OK'', hr_body = (if patient \<and> s = 0 then ''complete'' else ''awaiting_client'')\<rparr>, s - 1)),
        wr_error = (\<lambda>_. ''''), wr_turn = (\<lambda>b. Inr (demo_turn b)), wr_session = (\<lambda>_. Inl '''')\<rparr>,
      api_base = ''http://nas'', api_token = ''t''\<rparr>"

definition demo_state :: "((string \<times> string) list, nat) session_state" where
  "demo_state = \<lparr>sn_id = ''s1'', sn_desk = demo_desk, sn_server = 2\<rparr>"


theorem ask_unbounded_witness:
  "ask 100 demo_harness (demo_api False) ''rename it'' demo_state = None"
proof (rule ask_unbounded [where t = "demo_turn ''awaiting_client''"])
  show "\<exists>r s'. wr_send (api_wire (demo_api False)) s req = (Inr r, s') \<and> hr_code r = 200 \<and>
      wr_turn (api_wire (demo_api False)) (hr_body r) = Inr (demo_turn ''awaiting_client'')" for s req
    by (simp add: demo_api_def)
qed (simp_all add: demo_turn_def demo_state_def)

end
