(* ===== verification/Spec2Isabelle.thy ===== *)
theory Spec2Isabelle
  imports AgentLoop Books Client
begin

text \<open>placeholder\<close>

end
